theory Spec2Isabelle
  imports Complex_Main "HOL-Library.Word" "HOL-Library.Sublist" "HOL-Library.Multiset"
    "HOL-Library.Product_Lexorder"
begin

section \<open>Strings\<close>

text \<open>
  A JavaScript string is a sequence of UTF-16 code units; \<open>length\<close>, \<open>slice\<close>, \<open>indexOf\<close>
  and the regular expressions of the backend (none has the \<open>u\<close> flag) all count code units.
  \<open>js\<close> writes an ASCII literal as such a sequence.
\<close>

type_synonym code_unit = "16 word"

type_synonym jsstr = "code_unit list"

definition js :: "string \<Rightarrow> jsstr" where
  "js s = map (\<lambda>c. of_nat (of_char c)) s"

text \<open>
  White space as \<open>\s\<close> and \<open>String.prototype.trim\<close> see it: the WhiteSpace and
  LineTerminator code points of ECMAScript.
\<close>

definition is_space :: "code_unit \<Rightarrow> bool" where
  "is_space c \<longleftrightarrow>
     c = 0x09 \<or> c = 0x0A \<or> c = 0x0B \<or> c = 0x0C \<or> c = 0x0D \<or> c = 0x20 \<or> c = 0xA0 \<or>
     c = 0x1680 \<or> (0x2000 \<le> c \<and> c \<le> 0x200A) \<or> c = 0x2028 \<or> c = 0x2029 \<or>
     c = 0x202F \<or> c = 0x205F \<or> c = 0x3000 \<or> c = 0xFEFF"

definition trim :: "jsstr \<Rightarrow> jsstr" where
  "trim s = rev (dropWhile is_space (rev (dropWhile is_space s)))"

text \<open>
  Case folding of a regular expression with the \<open>i\<close> flag and without \<open>u\<close>: a code unit
  is compared through its upper case, and a code unit outside ASCII never folds into ASCII.
  Every pattern below is ASCII, so folding the ASCII letters decides each comparison.
\<close>

definition canon :: "code_unit \<Rightarrow> code_unit" where
  "canon c = (if 0x61 \<le> c \<and> c \<le> 0x7A then c - 0x20 else c)"

text \<open>\<open>s.includes(p)\<close>: \<open>p\<close> occurs in \<open>s\<close> as a contiguous run.\<close>

definition includes_js :: "jsstr \<Rightarrow> jsstr \<Rightarrow> bool" where
  "includes_js s p = sublist p s"

text \<open>Decimal rendering of a non-negative integer, as a template literal prints a status code.\<close>

fun show_nat :: "nat \<Rightarrow> jsstr" where
  "show_nat n =
     (if n < 10 then [of_nat (48 + n)] else show_nat (n div 10) @ [of_nat (48 + n mod 10)])"

declare show_nat.simps [simp del]

section \<open>The helper \<open>extractJson\<close>\<close>

text \<open>
  \<^verbatim>\<open>function extractJson(text){
  const m = text.match(/```json\s*([\s\S]*?)```/i);
  if(m) return m[1];
  const a = text.indexOf("{");
  const b = text.lastIndexOf("}");
  if(a !== -1 && b !== -1) return text.slice(a, b+1);
  return text;
}\<close>
\<close>

definition tick :: code_unit where
  "tick = 0x60"

definition ticks :: jsstr where
  "ticks = [tick, tick, tick]"

definition fence_open :: jsstr where
  "fence_open = ticks @ js ''json''"

definition lbrace :: code_unit where
  "lbrace = 0x7B"

definition rbrace :: code_unit where
  "rbrace = 0x7D"

text \<open>
  The tail \<open>([\s\S]*?)```\<close> of the pattern: the lazy group takes the fewest code units
  that let the three backticks match, and \<open>[\s\S]\<close> matches every code unit.
\<close>

fun find_close :: "jsstr \<Rightarrow> jsstr option" where
  "find_close [] = None"
| "find_close (c # cs) =
     (if prefix ticks (c # cs) then Some [] else map_option ((#) c) (find_close cs))"

text \<open>
  \<open>\s*\<close> followed by that tail: the greedy star takes a white space code unit first and
  gives it back only when the rest then fails.
\<close>

fun match_ws :: "jsstr \<Rightarrow> jsstr option" where
  "match_ws [] = find_close []"
| "match_ws (c # cs) =
     (if is_space c
      then (case match_ws cs of Some m \<Rightarrow> Some m | None \<Rightarrow> find_close (c # cs))
      else find_close (c # cs))"

text \<open>The whole pattern tried at the start of \<open>s\<close>; the result is capture group 1.\<close>

definition match_at :: "jsstr \<Rightarrow> jsstr option" where
  "match_at s =
     (if prefix (map canon fence_open) (map canon s)
      then match_ws (drop (length fence_open) s) else None)"

text \<open>\<open>text.match(re)\<close> without the \<open>g\<close> flag: the leftmost start that matches.\<close>

fun match_fence :: "jsstr \<Rightarrow> jsstr option" where
  "match_fence [] = match_at []"
| "match_fence (c # cs) =
     (case match_at (c # cs) of Some m \<Rightarrow> Some m | None \<Rightarrow> match_fence cs)"

fun indexOf :: "jsstr \<Rightarrow> code_unit \<Rightarrow> int" where
  "indexOf [] x = - 1"
| "indexOf (c # cs) x =
     (if c = x then 0 else (let i = indexOf cs x in if i = - 1 then - 1 else i + 1))"

fun lastIndexOf :: "jsstr \<Rightarrow> code_unit \<Rightarrow> int" where
  "lastIndexOf [] x = - 1"
| "lastIndexOf (c # cs) x =
     (let i = lastIndexOf cs x in
      if i \<noteq> - 1 then i + 1 else if c = x then 0 else - 1)"

text \<open>
  \<open>s.slice(a, b)\<close>: a negative index counts from the end, both are clamped to the string,
  and the result is empty when the end does not lie after the start.
\<close>

definition slice :: "jsstr \<Rightarrow> int \<Rightarrow> int \<Rightarrow> jsstr" where
  "slice s a b =
     (let n = int (length s);
          from = (if a < 0 then max (n + a) 0 else min a n);
          to = (if b < 0 then max (n + b) 0 else min b n)
      in take (nat (to - from)) (drop (nat from) s))"

definition extractJson :: "jsstr \<Rightarrow> jsstr" where
  "extractJson text =
     (case match_fence text of
        Some m1 \<Rightarrow> m1
      | None \<Rightarrow>
          (let a = indexOf text lbrace; b = lastIndexOf text rbrace
           in if a \<noteq> - 1 \<and> b \<noteq> - 1 then slice text a (b + 1) else text))"

text \<open>
  What it means for a text to hold a fence labelled json: at position \<open>i\<close> the label
  stands, in any letter case, and three backticks follow somewhere after it.
\<close>

definition fence_at :: "jsstr \<Rightarrow> nat \<Rightarrow> bool" where
  "fence_at text i \<longleftrightarrow>
     i \<le> length text \<and> prefix (map canon fence_open) (map canon (drop i text)) \<and>
     sublist ticks (drop (i + length fence_open) text)"

definition has_fence :: "jsstr \<Rightarrow> bool" where
  "has_fence text \<longleftrightarrow> (\<exists>i \<le> length text. fence_at text i)"

definition first_fence :: "jsstr \<Rightarrow> jsstr \<Rightarrow> jsstr \<Rightarrow> jsstr \<Rightarrow> jsstr \<Rightarrow> jsstr \<Rightarrow> bool" where
  "first_fence text pre opener ws body post \<longleftrightarrow>
     text = pre @ opener @ ws @ body @ ticks @ post \<and>
     map canon opener = map canon fence_open \<and>
     (\<forall>c\<in>set ws. is_space c) \<and> (body = [] \<or> \<not> is_space (hd body)) \<and>
     \<not> sublist ticks (body @ take 2 ticks) \<and>
     (\<forall>j<length pre. \<not> fence_at text j)"

definition first_lbrace :: "jsstr \<Rightarrow> nat \<Rightarrow> bool" where
  "first_lbrace text a \<longleftrightarrow> a < length text \<and> text ! a = lbrace \<and> (\<forall>i<a. text ! i \<noteq> lbrace)"

definition last_rbrace :: "jsstr \<Rightarrow> nat \<Rightarrow> bool" where
  "last_rbrace text b \<longleftrightarrow>
     b < length text \<and> text ! b = rbrace \<and> (\<forall>i. b < i \<and> i < length text \<longrightarrow> text ! i \<noteq> rbrace)"

section \<open>Values, errors and the outside world\<close>

text \<open>
  A JavaScript number. A finite number is modelled as an exact rational: the rounding of
  IEEE doubles, the overflow of finite arithmetic and the sign of zero are not modelled.
  The two infinities (what an overflowing literal such as \<open>1e999\<close> parses to) and \<open>NaN\<close>
  are values of their own, with the arithmetic IEEE gives them.
\<close>

datatype jsnum = Fin rat | PInf | NInf | NaN

fun js_neg :: "jsnum \<Rightarrow> jsnum" where
  "js_neg (Fin q) = Fin (- q)"
| "js_neg PInf = NInf"
| "js_neg NInf = PInf"
| "js_neg NaN = NaN"

fun js_add :: "jsnum \<Rightarrow> jsnum \<Rightarrow> jsnum" where
  "js_add NaN b = NaN"
| "js_add a NaN = NaN"
| "js_add (Fin p) (Fin q) = Fin (p + q)"
| "js_add PInf NInf = NaN"
| "js_add NInf PInf = NaN"
| "js_add PInf b = PInf"
| "js_add NInf b = NInf"
| "js_add a PInf = PInf"
| "js_add a NInf = NInf"

definition js_sub :: "jsnum \<Rightarrow> jsnum \<Rightarrow> jsnum" where
  "js_sub a b = js_add a (js_neg b)"

text \<open>The sign of a number that is not \<open>NaN\<close>: -1, 0 or 1.\<close>

fun js_sign :: "jsnum \<Rightarrow> int" where
  "js_sign (Fin q) = (if q < 0 then - 1 else if q = 0 then 0 else 1)"
| "js_sign PInf = 1"
| "js_sign NInf = - 1"
| "js_sign NaN = 0"

fun js_mul :: "jsnum \<Rightarrow> jsnum \<Rightarrow> jsnum" where
  "js_mul NaN b = NaN"
| "js_mul a NaN = NaN"
| "js_mul (Fin p) (Fin q) = Fin (p * q)"
| "js_mul a b =
     (if js_sign a * js_sign b = 0 then NaN else if js_sign a * js_sign b > 0 then PInf else NInf)"

text \<open>\<open>n > 0\<close>, \<open>a < b\<close> and \<open>!n\<close>: every comparison with \<open>NaN\<close> is false, and the falsy
  numbers are zero and \<open>NaN\<close>.\<close>

fun js_positive :: "jsnum \<Rightarrow> bool" where
  "js_positive (Fin q) = (q > 0)"
| "js_positive PInf = True"
| "js_positive n = False"

fun js_less :: "jsnum \<Rightarrow> jsnum \<Rightarrow> bool" where
  "js_less NaN b = False"
| "js_less a NaN = False"
| "js_less (Fin p) (Fin q) = (p < q)"
| "js_less NInf NInf = False"
| "js_less NInf b = True"
| "js_less a PInf = (a \<noteq> PInf)"
| "js_less a b = False"

definition js_falsy :: "jsnum \<Rightarrow> bool" where
  "js_falsy n \<longleftrightarrow> n = Fin 0 \<or> n = NaN"

text \<open>
  A decoded JSON document, and \<open>undefined\<close> for what a property read finds missing. An
  object holds its own properties, each key once.
\<close>

datatype jsval =
    JUndefined
  | JNull
  | JBool bool
  | JNum jsnum
  | JStr jsstr
  | JArr "jsval list"
  | JObj "(jsstr \<times> jsval) list"

text \<open>A thrown \<open>Error\<close> object: its \<open>name\<close> and its \<open>message\<close>.\<close>

datatype jserr = JsErr (ename: jsstr) (emessage: jsstr)

definition new_Error :: "jsstr \<Rightarrow> jserr" where
  "new_Error msg = JsErr (js ''Error'') msg"

text \<open>
  \<open>String(err.message || err)\<close>, the text both handlers report: the message, or for an
  empty message what \<open>Error.prototype.toString\<close> gives, which is then the name.
\<close>

definition err_text :: "jserr \<Rightarrow> jsstr" where
  "err_text e = (if emessage e \<noteq> [] then emessage e else ename e)"

text \<open>The TypeError of reading a property of \<open>null\<close> or \<open>undefined\<close> (the wording is V8's).\<close>

definition TypeError_read :: "jsstr \<Rightarrow> jsstr \<Rightarrow> jserr" where
  "TypeError_read what k =
     JsErr (js ''TypeError'')
       (js ''Cannot read properties of '' @ what @ js '' (reading '' @ [0x27] @ k @ [0x27] @ js '')'')"

text \<open>
  \<open>v.k\<close> for the property names this backend reads (\<open>items\<close>, \<open>total\<close>, \<open>criteria\<close>,
  \<open>weight\<close>, \<open>score\<close>, \<open>candidates\<close>, \<open>content\<close>, \<open>parts\<close>, \<open>text\<close>): no prototype
  defines one of them, so a boolean, number, string or array has none.
\<close>

fun get_prop :: "jsval \<Rightarrow> jsstr \<Rightarrow> jserr + jsval" where
  "get_prop JUndefined k = Inl (TypeError_read (js ''undefined'') k)"
| "get_prop JNull k = Inl (TypeError_read (js ''null'') k)"
| "get_prop (JObj kvs) k = Inr (case map_of kvs k of Some v \<Rightarrow> v | None \<Rightarrow> JUndefined)"
| "get_prop v k = Inr JUndefined"

text \<open>\<open>v?.k\<close> and \<open>v?.[0]\<close>: \<open>undefined\<close> where \<open>v\<close> is \<open>null\<close> or \<open>undefined\<close>.\<close>

definition opt_prop :: "jsval \<Rightarrow> jsstr \<Rightarrow> jsval" where
  "opt_prop v k = (case get_prop v k of Inl e \<Rightarrow> JUndefined | Inr x \<Rightarrow> x)"

fun opt_index0 :: "jsval \<Rightarrow> jsval" where
  "opt_index0 (JArr xs) = (case xs of [] \<Rightarrow> JUndefined | x # rest \<Rightarrow> x)"
| "opt_index0 (JStr s) = (case s of [] \<Rightarrow> JUndefined | c # rest \<Rightarrow> JStr [c])"
| "opt_index0 (JObj kvs) = (case map_of kvs (js ''0'') of Some v \<Rightarrow> v | None \<Rightarrow> JUndefined)"
| "opt_index0 v = JUndefined"

datatype http_method = GET | POST

record request =
  req_url :: jsstr
  req_method :: http_method
  req_headers :: "(jsstr \<times> jsstr) list"
  req_body :: "jsval option"

text \<open>
  A response of \<open>node-fetch\<close>: \<open>ok\<close>, \<open>status\<close>, and what reading the body gives
  (\<open>text()\<close> can reject).
\<close>

record response =
  resp_ok :: bool
  resp_status :: nat
  resp_body :: "jserr + jsstr"

text \<open>
  What the backend takes from outside its own file. The network is a state \<open>'w\<close> that
  every \<open>fetch\<close> reads and changes; the rest are built-ins and libraries:
  the grammar of \<open>JSON.parse\<close>, \<open>encodeURIComponent\<close> (a URIError on a lone surrogate),
  the credential of \<open>process.env\<close>, \<open>Number\<close> on a string, array or object,
  \<open>cheerio\<close>'s \<open>$("h1, h2").first().text()\<close> of a page, and the two prompts. The prompts
  are template literals whose \<^verbatim>\<open>${text[:15000]}\<close> and \<^verbatim>\<open>${desc[:12000]}\<close> are not
  JavaScript expressions, so the text they denote is left open; the scoring prompt reads
  \<open>r.name\<close> of every rubric entry and so can throw.
\<close>

record 'w env =
  fetch :: "request \<Rightarrow> 'w \<Rightarrow> (jserr + response) \<times> 'w"
  json_grammar :: "jsstr \<Rightarrow> jserr + jsval"
  encodeURIComponent :: "jsstr \<Rightarrow> jserr + jsstr"
  GEMINI_API_KEY :: "jsstr option"
  number_of :: "jsval \<Rightarrow> jsnum"
  heading_text :: "jsstr \<Rightarrow> jsstr"
  rubric_prompt :: "jsstr \<Rightarrow> jsstr"
  scoring_prompt :: "jsval list \<Rightarrow> jsstr \<Rightarrow> jsstr \<Rightarrow> jsstr \<Rightarrow> jserr + jsstr"
  pdf_text :: "8 word list \<Rightarrow> jserr + jsstr"

text \<open>
  \<open>JSON.parse\<close>: a JSON text holds a value, so the empty text is a SyntaxError; the
  grammar proper is the environment's.
\<close>

definition JSON_parse :: "'w env \<Rightarrow> jsstr \<Rightarrow> jserr + jsval" where
  "JSON_parse env text =
     (if text = [] then Inl (JsErr (js ''SyntaxError'') (js ''Unexpected end of JSON input''))
      else json_grammar env text)"

section \<open>The client \<open>geminiCall\<close>\<close>

text \<open>
  \<^verbatim>\<open>async function geminiCall({ model, prompt, apiKey }){
  const key = apiKey || process.env.GEMINI_API_KEY;
  if(!key) throw new Error("Missing GEMINI_API_KEY (set in backend .env)");
  const url = `https://.../v1beta/models/${encodeURIComponent(model)}:generateContent?key=${encodeURIComponent(key)}`;
  const resp = await fetch(url, { method: "POST", headers: ..., body: JSON.stringify({...}) });
  if(!resp.ok){
    const t = await resp.text();
    throw new Error(`Gemini error ${resp.status}: ${t.slice(0,400)}`);
  }
  const data = await resp.json();
  const text = (data?.candidates?.[0]?.content?.parts?.[0]?.text ?? "").trim();
  if(!text) throw new Error("Empty Gemini response");
  return text;
}\<close>
\<close>

definition truthy_str :: "jsstr option \<Rightarrow> bool" where
  "truthy_str k = (case k of None \<Rightarrow> False | Some s \<Rightarrow> s \<noteq> [])"

text \<open>\<open>apiKey || process.env.GEMINI_API_KEY\<close>\<close>

definition credential :: "'w env \<Rightarrow> jsstr option \<Rightarrow> jsstr option" where
  "credential env apiKey = (if truthy_str apiKey then apiKey else GEMINI_API_KEY env)"

definition gemini_url :: "'w env \<Rightarrow> jsstr \<Rightarrow> jsstr \<Rightarrow> jserr + jsstr" where
  "gemini_url env model key =
     (case encodeURIComponent env model of
        Inl e \<Rightarrow> Inl e
      | Inr m \<Rightarrow>
          (case encodeURIComponent env key of
             Inl e \<Rightarrow> Inl e
           | Inr k \<Rightarrow>
               Inr (js ''https://generativelanguage.googleapis.com/v1beta/models/'' @ m @
                    js '':generateContent?key='' @ k)))"

definition gemini_request :: "jsstr \<Rightarrow> jsstr \<Rightarrow> request" where
  "gemini_request url prompt =
     \<lparr>req_url = url, req_method = POST,
      req_headers = [(js ''Content-Type'', js ''application/json'')],
      req_body = Some (JObj
        [(js ''contents'',
            JArr [JObj [(js ''role'', JStr (js ''user'')),
                        (js ''parts'', JArr [JObj [(js ''text'', JStr prompt)]])]]),
         (js ''generationConfig'', JObj [(js ''temperature'', JNum (Fin (2 / 10)))])])\<rparr>"

text \<open>
  \<open>(data?.candidates?.[0]?.content?.parts?.[0]?.text ?? "").trim()\<close>: \<open>??\<close> replaces only
  \<open>null\<close> and \<open>undefined\<close>, and a value that is not a string has no \<open>trim\<close>.
\<close>

definition reply_field :: "jsval \<Rightarrow> jsval" where
  "reply_field data =
     opt_prop (opt_index0 (opt_prop (opt_prop (opt_index0
        (opt_prop data (js ''candidates''))) (js ''content'')) (js ''parts''))) (js ''text'')"

definition reply_text :: "jsval \<Rightarrow> jserr + jsstr" where
  "reply_text data =
     (case reply_field data of
        JUndefined \<Rightarrow> Inr (trim [])
      | JNull \<Rightarrow> Inr (trim [])
      | JStr s \<Rightarrow> Inr (trim s)
      | v \<Rightarrow> Inl (JsErr (js ''TypeError'') (js ''(intermediate value).trim is not a function'')))"

definition geminiCall ::
    "'w env \<Rightarrow> jsstr \<Rightarrow> jsstr \<Rightarrow> jsstr option \<Rightarrow> 'w \<Rightarrow> (jserr + jsstr) \<times> 'w" where
  "geminiCall env model prompt apiKey w =
     (case credential env apiKey of
        None \<Rightarrow> (Inl (new_Error (js ''Missing GEMINI_API_KEY (set in backend .env)'')), w)
      | Some key \<Rightarrow>
          if key = []
          then (Inl (new_Error (js ''Missing GEMINI_API_KEY (set in backend .env)'')), w)
          else
            (case gemini_url env model key of
               Inl e \<Rightarrow> (Inl e, w)
             | Inr url \<Rightarrow>
                 (case fetch env (gemini_request url prompt) w of
                    (Inl e, w') \<Rightarrow> (Inl e, w')
                  | (Inr resp, w') \<Rightarrow>
                      if \<not> resp_ok resp
                      then (case resp_body resp of
                              Inl e \<Rightarrow> (Inl e, w')
                            | Inr t \<Rightarrow>
                                (Inl (new_Error (js ''Gemini error '' @
                                        show_nat (resp_status resp) @ js '': '' @ slice t 0 400)),
                                 w'))
                      else
                        (case resp_body resp of
                           Inl e \<Rightarrow> (Inl e, w')
                         | Inr b \<Rightarrow>
                             (case JSON_parse env b of
                                Inl e \<Rightarrow> (Inl e, w')
                              | Inr data \<Rightarrow>
                                  (case reply_text data of
                                     Inl e \<Rightarrow> (Inl e, w')
                                   | Inr text \<Rightarrow>
                                       if text = []
                                       then (Inl (new_Error (js ''Empty Gemini response'')), w')
                                       else (Inr text, w')))))))"

text \<open>
  The three failures the claim about the client names, in its words: no credential, a
  response whose status is not success, and a reply without text after trimming.
  \<open>remote_response\<close> is the response of the one call, when the call is made and answered.
\<close>

definition no_credential :: "'w env \<Rightarrow> jsstr option \<Rightarrow> bool" where
  "no_credential env apiKey \<longleftrightarrow> \<not> truthy_str apiKey \<and> \<not> truthy_str (GEMINI_API_KEY env)"

definition remote_response ::
    "'w env \<Rightarrow> jsstr \<Rightarrow> jsstr \<Rightarrow> jsstr option \<Rightarrow> 'w \<Rightarrow> response option" where
  "remote_response env model prompt apiKey w =
     (case credential env apiKey of
        None \<Rightarrow> None
      | Some key \<Rightarrow>
          if key = [] then None
          else
            (case gemini_url env model key of
               Inl e \<Rightarrow> None
             | Inr url \<Rightarrow>
                 (case fst (fetch env (gemini_request url prompt) w) of
                    Inl e \<Rightarrow> None
                  | Inr resp \<Rightarrow> Some resp)))"

definition claimed_failure ::
    "'w env \<Rightarrow> jsstr \<Rightarrow> jsstr \<Rightarrow> jsstr option \<Rightarrow> 'w \<Rightarrow> bool" where
  "claimed_failure env model prompt apiKey w \<longleftrightarrow>
     no_credential env apiKey \<or>
     (\<exists>resp. remote_response env model prompt apiKey w = Some resp \<and> \<not> resp_ok resp) \<or>
     (\<exists>resp b data. remote_response env model prompt apiKey w = Some resp \<and> resp_ok resp \<and>
        resp_body resp = Inr b \<and> JSON_parse env b = Inr data \<and> reply_text data = Inr [])"

section \<open>The gallery scan of \<open>/api/scrape-devpost\<close>\<close>

text \<open>
  \<^verbatim>\<open>$("a").each((_, a)=>{
  const href = $(a).attr("href") || "";
  const name = ($(a).text() || "").trim();
  if(/\/(project|software)\//i.test(href) && name.length > 2){
    const urlAbs = absoluteUrl(href, url);
    if(urlAbs.includes("/project/") || urlAbs.includes("/software/")){
      projects.push({ name, url: urlAbs });
    }
  }
});
const map = new Map();
for(const p of projects){
  if(!map.has(p.url)) map.set(p.url, p);
}
res.json({ projects: Array.from(map.values()) });\<close>
  An anchor of the parsed page is its \<open>href\<close> attribute, if it has one, and its text.
\<close>

record anchor =
  a_href :: "jsstr option"
  a_text :: jsstr

record project =
  p_name :: jsstr
  p_url :: jsstr

text \<open>The pattern \<open>/\/(project|software)\//i\<close> tried at the start of \<open>s\<close>, and anywhere in it.\<close>

definition href_pattern_at :: "jsstr \<Rightarrow> bool" where
  "href_pattern_at s \<longleftrightarrow>
     prefix (map canon (js ''/project/'')) (map canon s) \<or>
     prefix (map canon (js ''/software/'')) (map canon s)"

fun href_test :: "jsstr \<Rightarrow> bool" where
  "href_test [] = href_pattern_at []"
| "href_test (c # cs) = (href_pattern_at (c # cs) \<or> href_test cs)"

text \<open>
  \<^verbatim>\<open>function absoluteUrl(href, base){
  try { return new URL(href, base).toString(); } catch { return href; }
}\<close>
  \<open>resolve href base\<close> is \<open>new URL(href, base).toString()\<close>, \<open>None\<close> where it throws.
\<close>

definition absoluteUrl :: "(jsstr \<Rightarrow> jsstr \<Rightarrow> jsstr option) \<Rightarrow> jsstr \<Rightarrow> jsstr \<Rightarrow> jsstr" where
  "absoluteUrl resolve href base = (case resolve href base of Some u \<Rightarrow> u | None \<Rightarrow> href)"

definition anchor_href :: "anchor \<Rightarrow> jsstr" where
  "anchor_href a = (case a_href a of None \<Rightarrow> [] | Some h \<Rightarrow> h)"

definition anchor_name :: "anchor \<Rightarrow> jsstr" where
  "anchor_name a = trim (a_text a)"

fun scan_anchors ::
    "(jsstr \<Rightarrow> jsstr \<Rightarrow> jsstr option) \<Rightarrow> jsstr \<Rightarrow> anchor list \<Rightarrow> project list" where
  "scan_anchors resolve url [] = []"
| "scan_anchors resolve url (a # rest) =
     (let href = anchor_href a; name = anchor_name a in
      if href_test href \<and> length name > 2
      then (let urlAbs = absoluteUrl resolve href url in
            if includes_js urlAbs (js ''/project/'') \<or> includes_js urlAbs (js ''/software/'')
            then \<lparr>p_name = name, p_url = urlAbs\<rparr> # scan_anchors resolve url rest
            else scan_anchors resolve url rest)
      else scan_anchors resolve url rest)"

text \<open>
  A \<open>Map\<close> keeps its entries in the order their keys were first set: a list of pairs.
  \<open>set\<close> on a key it has replaces the value in place.
\<close>

type_synonym 'v jsmap = "(jsstr \<times> 'v) list"

definition map_has :: "'v jsmap \<Rightarrow> jsstr \<Rightarrow> bool" where
  "map_has m k \<longleftrightarrow> k \<in> fst ` set m"

definition map_set :: "'v jsmap \<Rightarrow> jsstr \<Rightarrow> 'v \<Rightarrow> 'v jsmap" where
  "map_set m k v =
     (if map_has m k then map (\<lambda>(k', v'). if k' = k then (k', v) else (k', v')) m
      else m @ [(k, v)])"

definition map_values :: "'v jsmap \<Rightarrow> 'v list" where
  "map_values m = map snd m"

fun dedup_loop :: "project jsmap \<Rightarrow> project list \<Rightarrow> project jsmap" where
  "dedup_loop m [] = m"
| "dedup_loop m (p # ps) =
     dedup_loop (if \<not> map_has m (p_url p) then map_set m (p_url p) p else m) ps"

definition dedup :: "project list \<Rightarrow> project list" where
  "dedup ps = map_values (dedup_loop [] ps)"

definition harvest ::
    "(jsstr \<Rightarrow> jsstr \<Rightarrow> jsstr option) \<Rightarrow> jsstr \<Rightarrow> anchor list \<Rightarrow> project list" where
  "harvest resolve url anchors = dedup (scan_anchors resolve url anchors)"

text \<open>
  What the claim about the scan says an accepted anchor is, in its own words: the href
  holds \<open>/project/\<close> or \<open>/software/\<close> in any letter case, and the trimmed text is longer
  than two code units.
\<close>

definition href_holds :: "jsstr \<Rightarrow> bool" where
  "href_holds href \<longleftrightarrow>
     (\<exists>m. sublist m href \<and>
        (map canon m = map canon (js ''/project/'') \<or> map canon m = map canon (js ''/software/'')))"

definition claimed_accept :: "anchor \<Rightarrow> bool" where
  "claimed_accept a \<longleftrightarrow> href_holds (anchor_href a) \<and> length (trim (a_text a)) > 2"

text \<open>What the scan accepts: the same, and the resolved URL holds one of the two in lower case.\<close>

definition accepted ::
    "(jsstr \<Rightarrow> jsstr \<Rightarrow> jsstr option) \<Rightarrow> jsstr \<Rightarrow> anchor \<Rightarrow> bool" where
  "accepted resolve url a \<longleftrightarrow>
     claimed_accept a \<and>
     (sublist (js ''/project/'') (absoluteUrl resolve (anchor_href a) url) \<or>
      sublist (js ''/software/'') (absoluteUrl resolve (anchor_href a) url))"

definition as_project ::
    "(jsstr \<Rightarrow> jsstr \<Rightarrow> jsstr option) \<Rightarrow> jsstr \<Rightarrow> anchor \<Rightarrow> project" where
  "as_project resolve url a =
     \<lparr>p_name = trim (a_text a), p_url = absoluteUrl resolve (anchor_href a) url\<rparr>"

text \<open>Position \<open>i\<close> of a candidate list is the first to carry its URL.\<close>

definition first_seen :: "project list \<Rightarrow> nat \<Rightarrow> bool" where
  "first_seen ps i \<longleftrightarrow> p_url (ps ! i) \<notin> p_url ` set (take i ps)"

section \<open>The handlers \<open>/api/parse-rubric\<close> and \<open>/api/score\<close>\<close>

text \<open>What a handler answers: a status with a message, or the JSON it sends.\<close>

datatype 'a reply = Status400 jsstr | Status500 jsstr | Sent 'a

definition default_model :: jsstr where
  "default_model = js ''gemini-1.5-pro''"

definition model_or_default :: "jsstr option \<Rightarrow> jsstr" where
  "model_or_default model =
     (case model of None \<Rightarrow> default_model | Some m \<Rightarrow> if m = [] then default_model else m)"

text \<open>\<open>Array.isArray(v) ? v : []\<close>\<close>

definition array_or_empty :: "jsval \<Rightarrow> jsval list" where
  "array_or_empty v = (case v of JArr xs \<Rightarrow> xs | _ \<Rightarrow> [])"

text \<open>
  \<^verbatim>\<open>const parsed = JSON.parse(jsonText);
const criteria = Array.isArray(parsed.criteria) ? parsed.criteria : [];\<close>
\<close>

definition criteria_of :: "jsval \<Rightarrow> jserr + jsval list" where
  "criteria_of parsed =
     (case get_prop parsed (js ''criteria'') of
        Inl e \<Rightarrow> Inl e
      | Inr c \<Rightarrow> Inr (array_or_empty c))"

definition parse_rubric ::
    "'w env \<Rightarrow> jsstr option \<Rightarrow> 8 word list option \<Rightarrow> 'w \<Rightarrow> jsval list reply \<times> 'w" where
  "parse_rubric env model file w =
     (case file of
        None \<Rightarrow> (Status400 (js ''No rubric file uploaded''), w)
      | Some buffer \<Rightarrow>
          (case pdf_text env buffer of
             Inl e \<Rightarrow> (Status500 (err_text e), w)
           | Inr text \<Rightarrow>
               (case geminiCall env (model_or_default model) (rubric_prompt env text) None w of
                  (Inl e, w') \<Rightarrow> (Status500 (err_text e), w')
                | (Inr raw, w') \<Rightarrow>
                    (case JSON_parse env (extractJson raw) of
                       Inl e \<Rightarrow> (Status500 (err_text e), w')
                     | Inr parsed \<Rightarrow>
                         (case criteria_of parsed of
                            Inl e \<Rightarrow> (Status500 (err_text e), w')
                          | Inr criteria \<Rightarrow> (Sent criteria, w'))))))"

text \<open>
  \<open>Number(v)\<close> on a decoded value. On a string, an array or an object the conversion
  parses text and is the environment's.
\<close>

fun Number_js :: "'w env \<Rightarrow> jsval \<Rightarrow> jsnum" where
  "Number_js env JUndefined = NaN"
| "Number_js env JNull = Fin 0"
| "Number_js env (JBool b) = Fin (if b then 1 else 0)"
| "Number_js env (JNum n) = n"
| "Number_js env v = number_of env v"

text \<open>\<open>Number(v) || 0\<close>\<close>

definition num_or_0 :: "'w env \<Rightarrow> jsval \<Rightarrow> jsnum" where
  "num_or_0 env v = (if js_falsy (Number_js env v) then Fin 0 else Number_js env v)"

text \<open>\<open>(Number(it.weight)||0)*(Number(it.score)||0)\<close>\<close>

definition item_term :: "'w env \<Rightarrow> jsval \<Rightarrow> jserr + jsnum" where
  "item_term env it =
     (case get_prop it (js ''weight'') of
        Inl e \<Rightarrow> Inl e
      | Inr wt \<Rightarrow>
          (case get_prop it (js ''score'') of
             Inl e \<Rightarrow> Inl e
           | Inr sc \<Rightarrow> Inr (js_mul (num_or_0 env wt) (num_or_0 env sc))))"

text \<open>\<open>items.reduce((s,it)=> s + ..., 0)\<close>, from the accumulator \<open>s\<close> on.\<close>

fun reduce_items :: "'w env \<Rightarrow> jsnum \<Rightarrow> jsval list \<Rightarrow> jserr + jsnum" where
  "reduce_items env s [] = Inr s"
| "reduce_items env s (it # its) =
     (case item_term env it of
        Inl e \<Rightarrow> Inl e
      | Inr t \<Rightarrow> reduce_items env (js_add s t) its)"

text \<open>
  \<^verbatim>\<open>const items = Array.isArray(payload.items) ? payload.items : [];
let total = typeof payload.total === "number" ? payload.total : 0;
if(!total){
  total = items.reduce((s,it)=> s + (Number(it.weight)||0)*(Number(it.score)||0), 0);
}\<close>
\<close>

definition reported_total :: "jsval \<Rightarrow> jsnum" where
  "reported_total v = (case v of JNum n \<Rightarrow> n | _ \<Rightarrow> Fin 0)"

definition items_and_total :: "'w env \<Rightarrow> jsval \<Rightarrow> jserr + (jsval list \<times> jsnum)" where
  "items_and_total env payload =
     (case get_prop payload (js ''items'') of
        Inl e \<Rightarrow> Inl e
      | Inr iv \<Rightarrow>
          (let items = array_or_empty iv in
           case get_prop payload (js ''total'') of
             Inl e \<Rightarrow> Inl e
           | Inr tv \<Rightarrow>
               (let tot = reported_total tv in
                if js_falsy tot
                then (case reduce_items env (Fin 0) items of
                        Inl e \<Rightarrow> Inl e
                      | Inr t \<Rightarrow> Inr (items, t))
                else Inr (items, tot))))"

record result =
  r_name :: jsstr
  r_url :: jsstr
  r_items :: "jsval list"
  r_total :: jsnum
  r_error :: "jsstr option"

definition page_request :: "jsstr \<Rightarrow> request" where
  "page_request url =
     \<lparr>req_url = url, req_method = GET,
      req_headers = [(js ''User-Agent'', js ''Mozilla/5.0'')], req_body = None\<rparr>"

text \<open>\<open>$("h1, h2").first().text().trim() || p.name || "Untitled"\<close>\<close>

definition title_of :: "'w env \<Rightarrow> jsstr \<Rightarrow> project \<Rightarrow> jsstr" where
  "title_of env html p =
     (let h = trim (heading_text env html) in
      if h \<noteq> [] then h else if p_name p \<noteq> [] then p_name p else js ''Untitled'')"

text \<open>The body of the inner \<open>try\<close>: one project, to its result or to what it throws.\<close>

definition score_project ::
    "'w env \<Rightarrow> jsval list \<Rightarrow> jsstr \<Rightarrow> project \<Rightarrow> 'w \<Rightarrow> (jserr + result) \<times> 'w" where
  "score_project env rubric mdl p w =
     (case fetch env (page_request (p_url p)) w of
        (Inl e, w1) \<Rightarrow> (Inl e, w1)
      | (Inr page, w1) \<Rightarrow>
          if \<not> resp_ok page
          then (Inl (new_Error (js ''Fetch '' @ show_nat (resp_status page))), w1)
          else
            (case resp_body page of
               Inl e \<Rightarrow> (Inl e, w1)
             | Inr html \<Rightarrow>
                 (let title = title_of env html p in
                  case scoring_prompt env rubric title (p_url p) html of
                    Inl e \<Rightarrow> (Inl e, w1)
                  | Inr prompt \<Rightarrow>
                      (case geminiCall env mdl prompt None w1 of
                         (Inl e, w2) \<Rightarrow> (Inl e, w2)
                       | (Inr raw, w2) \<Rightarrow>
                           (case JSON_parse env (extractJson raw) of
                              Inl e \<Rightarrow> (Inl e, w2)
                            | Inr payload \<Rightarrow>
                                (case items_and_total env payload of
                                   Inl e \<Rightarrow> (Inl e, w2)
                                 | Inr (items, tot) \<Rightarrow>
                                     (Inr \<lparr>r_name = title, r_url = p_url p, r_items = items,
                                           r_total = tot, r_error = None\<rparr>, w2)))))))"

text \<open>
  The \<open>catch\<close> of the inner \<open>try\<close>:
  \<^verbatim>\<open>results.push({ name: p.name || "Untitled", url: p.url, items: [], total: 0,
  error: String(inner.message || inner) });\<close>
\<close>

definition placeholder :: "project \<Rightarrow> jserr \<Rightarrow> result" where
  "placeholder p e =
     \<lparr>r_name = (if p_name p \<noteq> [] then p_name p else js ''Untitled''), r_url = p_url p,
      r_items = [], r_total = Fin 0, r_error = Some (err_text e)\<rparr>"

definition settle :: "project \<Rightarrow> jserr + result \<Rightarrow> result" where
  "settle p outcome = (case outcome of Inl e \<Rightarrow> placeholder p e | Inr r \<Rightarrow> r)"

text \<open>The loop \<open>for(const p of projects)\<close>: the results in input order, and the world after.\<close>

fun score_loop ::
    "'w env \<Rightarrow> jsval list \<Rightarrow> jsstr \<Rightarrow> project list \<Rightarrow> 'w \<Rightarrow> result list \<times> 'w" where
  "score_loop env rubric mdl [] w = ([], w)"
| "score_loop env rubric mdl (p # ps) w =
     (case score_project env rubric mdl p w of
        (outcome, w1) \<Rightarrow>
          (case score_loop env rubric mdl ps w1 of
             (rs, w2) \<Rightarrow> (settle p outcome # rs, w2)))"

text \<open>
  \<open>results.sort((a,b)=> b.total - a.total)\<close>. \<open>Array.prototype.sort\<close> is stable and puts
  \<open>a\<close> before \<open>b\<close> unless the comparator says \<open>b\<close> comes first, which is a result above
  zero; a \<open>NaN\<close> from the comparator counts as zero. Insertion from the right end does
  that. Where the comparator is not consistent (a \<open>NaN\<close> total makes it so) the standard
  leaves the order to the engine; the insertion here gives what V8 gives on the inputs
  of the examples.
\<close>

fun insert_sorted :: "('a \<Rightarrow> 'a \<Rightarrow> jsnum) \<Rightarrow> 'a \<Rightarrow> 'a list \<Rightarrow> 'a list" where
  "insert_sorted cmp x [] = [x]"
| "insert_sorted cmp x (y # ys) =
     (if js_positive (cmp x y) then y # insert_sorted cmp x ys else x # y # ys)"

definition sort_js :: "('a \<Rightarrow> 'a \<Rightarrow> jsnum) \<Rightarrow> 'a list \<Rightarrow> 'a list" where
  "sort_js cmp xs = foldr (insert_sorted cmp) xs []"

definition by_total :: "result \<Rightarrow> result \<Rightarrow> jsnum" where
  "by_total a b = js_sub (r_total b) (r_total a)"

text \<open>
  The handler. \<open>projects\<close> and \<open>rubric\<close> are \<open>None\<close> when the body holds no array there;
  a project is an object with a \<open>name\<close> and a \<open>url\<close>, both strings.
\<close>

definition api_score ::
    "'w env \<Rightarrow> project list option \<Rightarrow> jsval list option \<Rightarrow> jsstr option \<Rightarrow> 'w \<Rightarrow>
     result list reply \<times> 'w" where
  "api_score env projects rubric model w =
     (case projects of
        None \<Rightarrow> (Status400 (js ''Missing projects[]''), w)
      | Some ps \<Rightarrow>
          if ps = [] then (Status400 (js ''Missing projects[]''), w)
          else
            (case rubric of
               None \<Rightarrow> (Status400 (js ''Missing rubric[]''), w)
             | Some rb \<Rightarrow>
                 if rb = [] then (Status400 (js ''Missing rubric[]''), w)
                 else
                   (case score_loop env rb (model_or_default model) ps w of
                      (results, w') \<Rightarrow> (Sent (sort_js by_total results), w'))))"

text \<open>
  The weight and the score an item contributes, read as the reduction reads them, and for
  the \<open>i\<close>-th project of a batch the world its processing starts in and what that
  processing comes to.
\<close>

definition weight_of :: "'w env \<Rightarrow> jsval \<Rightarrow> jsnum" where
  "weight_of env it = num_or_0 env (opt_prop it (js ''weight''))"

definition score_of :: "'w env \<Rightarrow> jsval \<Rightarrow> jsnum" where
  "score_of env it = num_or_0 env (opt_prop it (js ''score''))"

definition world_before ::
    "'w env \<Rightarrow> jsval list \<Rightarrow> jsstr \<Rightarrow> project list \<Rightarrow> 'w \<Rightarrow> nat \<Rightarrow> 'w" where
  "world_before env rubric mdl ps w i = snd (score_loop env rubric mdl (take i ps) w)"

definition outcome ::
    "'w env \<Rightarrow> jsval list \<Rightarrow> jsstr \<Rightarrow> project list \<Rightarrow> 'w \<Rightarrow> nat \<Rightarrow> jserr + result" where
  "outcome env rubric mdl ps w i =
     fst (score_project env rubric mdl (ps ! i) (world_before env rubric mdl ps w i))"


fun desc_key :: "jsnum \<Rightarrow> int \<times> rat" where
  "desc_key PInf = (- 1, 0)"
| "desc_key (Fin q) = (0, - q)"
| "desc_key NInf = (1, 0)"
| "desc_key NaN = (2, 0)"


section \<open>Example inputs\<close>

definition fenced_reply :: jsstr where
  "fenced_reply = js ''Hi '' @ ticks @ js ''JSON'' @ [0x0A, 0x20] @ js ''{a} '' @ ticks @ js '' }''"

text \<open>
  For a path-absolute href such as \<open>/project/42\<close> and a base on \<open>https://devpost.com\<close>,
  \<open>new URL(href, base).toString()\<close> is the origin followed by the href. The examples
  resolve such hrefs only.
\<close>

definition resolve_on_devpost :: "jsstr \<Rightarrow> jsstr \<Rightarrow> jsstr option" where
  "resolve_on_devpost href base = Some (js ''https://devpost.com'' @ href)"

definition gallery_url :: jsstr where
  "gallery_url = js ''https://devpost.com/hackathons''"

definition gallery :: "anchor list" where
  "gallery =
     [\<lparr>a_href = Some (js ''/project/42''), a_text = js ''  Foo ''\<rparr>,
      \<lparr>a_href = Some (js ''/about''), a_text = js ''Team''\<rparr>,
      \<lparr>a_href = Some (js ''/software/x''), a_text = js ''Bar''\<rparr>,
      \<lparr>a_href = None, a_text = js ''No link''\<rparr>,
      \<lparr>a_href = Some (js ''/project/42''), a_text = js ''Foo again''\<rparr>,
      \<lparr>a_href = Some (js ''/software/y''), a_text = js '' ab ''\<rparr>]"

definition upper_case_anchor :: anchor where
  "upper_case_anchor = \<lparr>a_href = Some (js ''/Project/42''), a_text = js ''Foo''\<rparr>"

definition two_anchors :: "anchor list" where
  "two_anchors =
     [\<lparr>a_href = Some (js ''/project/42''), a_text = js ''Foo''\<rparr>,
      \<lparr>a_href = Some (js ''/about''), a_text = js ''Team''\<rparr>]"

text \<open>Results that carry the given totals, named by their position in the input.\<close>

definition ranked :: "jsnum list \<Rightarrow> result list" where
  "ranked ts =
     map (\<lambda>(i, t). \<lparr>r_name = show_nat i, r_url = [], r_items = [], r_total = t, r_error = None\<rparr>)
       (zip [0..<length ts] ts)"

text \<open>
  An example world. Its state counts the requests made. Project pages are served by URL:
  \<open>a\<close> and \<open>d\<close> exist, \<open>b\<close> cannot be reached, \<open>c\<close> answers 404. The model endpoint
  answers by the prompt it is sent, and in this world the scoring prompt is the title.
\<close>

definition prompt_of :: "request \<Rightarrow> jsstr" where
  "prompt_of req =
     (case req_body req of
        None \<Rightarrow> []
      | Some b \<Rightarrow>
          (case opt_prop (opt_index0 (opt_prop (opt_index0 (opt_prop b (js ''contents'')))
                  (js ''parts''))) (js ''text'') of
             JStr s \<Rightarrow> s
           | _ \<Rightarrow> []))"

definition demo_fetch :: "request \<Rightarrow> nat \<Rightarrow> (jserr + response) \<times> nat" where
  "demo_fetch req n =
     (if req_method req = POST then
        (if prompt_of req = js ''Down''
         then Inl (JsErr (js ''FetchError'') (js ''getaddrinfo ENOTFOUND''))
         else if prompt_of req = js ''Busy''
         then Inr \<lparr>resp_ok = False, resp_status = 503, resp_body = Inr (js ''overloaded'')\<rparr>
         else Inr \<lparr>resp_ok = True, resp_status = 200,
                   resp_body = Inr (js ''reply:'' @ prompt_of req)\<rparr>)
      else if req_url req = js ''https://devpost.com/software/a''
      then Inr \<lparr>resp_ok = True, resp_status = 200, resp_body = Inr (js ''<h1> Alpha </h1>'')\<rparr>
      else if req_url req = js ''https://devpost.com/software/d''
      then Inr \<lparr>resp_ok = True, resp_status = 200, resp_body = Inr (js ''<h1>Delta</h1>'')\<rparr>
      else if req_url req = js ''https://devpost.com/software/c''
      then Inr \<lparr>resp_ok = False, resp_status = 404, resp_body = Inr (js ''Not Found'')\<rparr>
      else Inl (JsErr (js ''FetchError'') (js ''socket hang up'')),
      Suc n)"

definition reply_with :: "jsval \<Rightarrow> jsval" where
  "reply_with v =
     JObj [(js ''candidates'',
            JArr [JObj [(js ''content'', JObj [(js ''parts'', JArr [JObj [(js ''text'', v)]])])]])]"

definition alpha_payload :: jsval where
  "alpha_payload =
     JObj [(js ''items'',
            JArr [JObj [(js ''name'', JStr (js ''Tech'')), (js ''weight'', JNum (Fin (6 / 10))),
                        (js ''score'', JNum (Fin 80))],
                  JObj [(js ''name'', JStr (js ''Design'')), (js ''weight'', JNum (Fin (4 / 10))),
                        (js ''score'', JNum (Fin 50))]])]"

definition delta_payload :: jsval where
  "delta_payload = JObj [(js ''items'', JStr (js ''none'')), (js ''total'', JNum (Fin 90))]"

definition demo_grammar :: "jsstr \<Rightarrow> jserr + jsval" where
  "demo_grammar s =
     (if s = js ''reply:Alpha''
      then Inr (reply_with (JStr (js '' Here: '' @ ticks @ js ''json {alpha} '' @ ticks @ js '' '')))
      else if s = js ''reply:Delta'' then Inr (reply_with (JStr (js ''say {delta} ok'')))
      else if s = js ''reply:Blank'' then Inr (reply_with (JStr (js ''   '')))
      else if s = js ''reply:Rubric''
      then Inr (reply_with (JStr (js ''{rubric}'')))
      else if s = js ''{alpha} '' then Inr alpha_payload
      else if s = js ''{delta}'' then Inr delta_payload
      else if s = js ''{rubric}''
      then Inr (JObj [(js ''criteria'',
                  JArr [JObj [(js ''name'', JStr (js ''Tech'')), (js ''weight'', JNum (Fin (6 / 10)))],
                        JObj [(js ''name'', JStr (js ''Design'')), (js ''weight'', JNum (Fin (4 / 10)))]])])
      else Inl (JsErr (js ''SyntaxError'') (js ''Unexpected token'')))"

definition demo_heading :: "jsstr \<Rightarrow> jsstr" where
  "demo_heading html =
     (if html = js ''<h1> Alpha </h1>'' then js '' Alpha ''
      else if html = js ''<h1>Delta</h1>'' then js ''Delta'' else [])"

definition demo_env :: "nat env" where
  "demo_env =
     \<lparr>fetch = demo_fetch, json_grammar = demo_grammar, encodeURIComponent = Inr,
      GEMINI_API_KEY = Some (js ''secret''), number_of = (\<lambda>v. NaN),
      heading_text = demo_heading, rubric_prompt = (\<lambda>t. js ''Rubric''),
      scoring_prompt = (\<lambda>rubric title url html. Inr title),
      pdf_text = (\<lambda>buffer. Inr (js ''Judging criteria''))\<rparr>"

definition demo_projects :: "project list" where
  "demo_projects =
     [\<lparr>p_name = js ''A'', p_url = js ''https://devpost.com/software/a''\<rparr>,
      \<lparr>p_name = js ''B'', p_url = js ''https://devpost.com/software/b''\<rparr>,
      \<lparr>p_name = [], p_url = js ''https://devpost.com/software/c''\<rparr>,
      \<lparr>p_name = js ''D'', p_url = js ''https://devpost.com/software/d''\<rparr>]"

definition demo_rubric :: "jsval list" where
  "demo_rubric =
     [JObj [(js ''name'', JStr (js ''Tech'')), (js ''weight'', JNum (Fin (6 / 10)))],
      JObj [(js ''name'', JStr (js ''Design'')), (js ''weight'', JNum (Fin (4 / 10)))]]"

definition odd_item :: jsval where
  "odd_item = JObj [(js ''weight'', JStr (js ''heavy'')), (js ''feedback'', JStr (js ''ok''))]"

definition demo_url :: jsstr where
  "demo_url =
     js ''https://generativelanguage.googleapis.com/v1beta/models/gemini-1.5-pro:generateContent?key=secret''"

text \<open>
  A second world, for a total that is \<open>NaN\<close>. Every page exists and its heading is its
  own URL; the model reports the total 5 for the first project and 10 for the third, and
  for the second an item of weight \<open>1e999\<close>, which \<open>JSON.parse\<close> reads as \<open>Infinity\<close>,
  and score 0.
\<close>

definition five_url :: jsstr where
  "five_url = js ''https://devpost.com/software/five''"

definition overflow_url :: jsstr where
  "overflow_url = js ''https://devpost.com/software/overflow''"

definition ten_url :: jsstr where
  "ten_url = js ''https://devpost.com/software/ten''"

definition overflow_payload :: jsval where
  "overflow_payload =
     JObj [(js ''items'', JArr [JObj [(js ''weight'', JNum PInf), (js ''score'', JNum (Fin 0))]])]"

definition overflow_fetch :: "request \<Rightarrow> nat \<Rightarrow> (jserr + response) \<times> nat" where
  "overflow_fetch req n =
     (if req_method req = POST
      then Inr \<lparr>resp_ok = True, resp_status = 200, resp_body = Inr (prompt_of req)\<rparr>
      else Inr \<lparr>resp_ok = True, resp_status = 200, resp_body = Inr (req_url req)\<rparr>,
      Suc n)"

definition overflow_grammar :: "jsstr \<Rightarrow> jserr + jsval" where
  "overflow_grammar s =
     (if s = five_url then Inr (reply_with (JStr (js ''{five}'')))
      else if s = overflow_url then Inr (reply_with (JStr (js ''{overflow}'')))
      else if s = ten_url then Inr (reply_with (JStr (js ''{ten}'')))
      else if s = js ''{five}'' then Inr (JObj [(js ''total'', JNum (Fin 5))])
      else if s = js ''{overflow}'' then Inr overflow_payload
      else if s = js ''{ten}'' then Inr (JObj [(js ''total'', JNum (Fin 10))])
      else Inl (JsErr (js ''SyntaxError'') (js ''Unexpected token'')))"

definition overflow_env :: "nat env" where
  "overflow_env =
     demo_env\<lparr>fetch := overflow_fetch, json_grammar := overflow_grammar,
       heading_text := (\<lambda>html. html)\<rparr>"

definition overflow_projects :: "project list" where
  "overflow_projects =
     [\<lparr>p_name = js ''Five'', p_url = five_url\<rparr>,
      \<lparr>p_name = js ''Overflow'', p_url = overflow_url\<rparr>,
      \<lparr>p_name = js ''Ten'', p_url = ten_url\<rparr>]"

section \<open>Properties of \<open>extractJson\<close>\<close>
lemma tick_not_space: "\<not> is_space tick"
  by (simp add: tick_def is_space_def)

lemma find_close_None: "find_close s = None \<longleftrightarrow> \<not> sublist ticks s"
  by (induction s) (auto simp: sublist_Cons_right ticks_def)

lemma find_close_Some:
  "\<not> sublist ticks (b @ take 2 ticks) \<Longrightarrow> find_close (b @ ticks @ post) = Some b"
proof (induction b)
  case Nil
  then show ?case by (simp add: ticks_def)
next
  case (Cons c b)
  have np: "\<not> prefix ticks (c # b @ ticks @ post)"
  proof
    assume "prefix ticks (c # b @ ticks @ post)"
    then have "prefix ticks ((c # b @ take 2 ticks) @ (drop 2 ticks @ post))"
      by (simp add: ticks_def)
    moreover have "length ticks \<le> length (c # b @ take 2 ticks)"
      by (simp add: ticks_def)
    ultimately have "prefix ticks (c # b @ take 2 ticks)"
      by (metis prefix_append prefix_length_prefix prefix_order.dual_order.refl prefix_def)
    with Cons.prems show False by (auto simp: sublist_Cons_right)
  qed
  from Cons.prems have "\<not> sublist ticks (b @ take 2 ticks)"
    by (auto simp: sublist_Cons_right)
  with Cons.IH np show ?case by simp
qed

lemma find_close_dropWhile:
  "find_close (dropWhile is_space s) = None \<longleftrightarrow> find_close s = None"
  by (induction s) (auto simp: ticks_def tick_not_space)

lemma match_ws_eq: "match_ws s = find_close (dropWhile is_space s)"
proof (induction s)
  case Nil
  then show ?case by simp
next
  case (Cons c cs)
  show ?case
  proof (cases "is_space c")
    case False
    then show ?thesis by simp
  next
    case True
    show ?thesis
    proof (cases "match_ws cs")
      case (Some m)
      with Cons have "find_close (dropWhile is_space cs) = Some m" by simp
      with True Some show ?thesis by simp
    next
      case None
      with Cons have "find_close (dropWhile is_space cs) = None" by simp
      then have "find_close cs = None" by (simp add: find_close_dropWhile)
      moreover have "\<not> prefix ticks (c # cs)"
        using True tick_not_space by (auto simp: ticks_def)
      ultimately show ?thesis using True None Cons by simp
    qed
  qed
qed

lemma match_at_eq:
  "match_at s =
     (if prefix (map canon fence_open) (map canon s)
      then find_close (dropWhile is_space (drop (length fence_open) s)) else None)"
  by (simp add: match_at_def match_ws_eq)

lemma find_close_ws_sublist:
  "find_close (dropWhile is_space r) \<noteq> None \<longleftrightarrow> sublist ticks r"
proof -
  have "(find_close (dropWhile is_space r) = None) = (find_close r = None)"
    by (rule find_close_dropWhile)
  also have "\<dots> = (\<not> sublist ticks r)"
    by (rule find_close_None)
  finally show ?thesis by simp
qed

lemma fence_at_iff:
  "fence_at t i \<longleftrightarrow> i \<le> length t \<and> match_at (drop i t) \<noteq> None"
proof -
  have d: "drop (i + length fence_open) t = drop (length fence_open) (drop i t)"
    by (simp add: add.commute)
  have "match_at (drop i t) \<noteq> None \<longleftrightarrow>
        prefix (map canon fence_open) (map canon (drop i t)) \<and>
        sublist ticks (drop (length fence_open) (drop i t))"
    using find_close_ws_sublist[of "drop (length fence_open) (drop i t)"]
    by (simp only: match_at_eq split: if_split) simp
  then show ?thesis
    by (simp only: fence_at_def d)
qed

lemma match_fence_None:
  "match_fence t = None \<longleftrightarrow> (\<forall>i \<le> length t. match_at (drop i t) = None)"
proof (induction t)
  case Nil
  then show ?case by simp
next
  case (Cons c cs)
  show ?case
  proof
    assume l: "match_fence (c # cs) = None"
    then have a: "match_at (c # cs) = None" and b: "match_fence cs = None"
      by (auto split: option.splits)
    show "\<forall>i \<le> length (c # cs). match_at (drop i (c # cs)) = None"
    proof (intro allI impI)
      fix i assume "i \<le> length (c # cs)"
      then show "match_at (drop i (c # cs)) = None"
        using a b Cons.IH by (cases i) auto
    qed
  next
    assume r: "\<forall>i \<le> length (c # cs). match_at (drop i (c # cs)) = None"
    then have a: "match_at (c # cs) = None" by (metis drop0 le0)
    have "\<forall>i \<le> length cs. match_at (drop i cs) = None"
    proof (intro allI impI)
      fix i assume "i \<le> length cs"
      then have "match_at (drop (Suc i) (c # cs)) = None" using r by (metis Suc_le_mono length_Cons)
      then show "match_at (drop i cs) = None" by simp
    qed
    with Cons.IH a show "match_fence (c # cs) = None" by simp
  qed
qed

lemma has_fence_iff: "has_fence t \<longleftrightarrow> match_fence t \<noteq> None"
  by (auto simp: has_fence_def fence_at_iff match_fence_None)

lemma match_fence_here: "match_at s = Some m \<Longrightarrow> match_fence s = Some m"
  by (cases s) auto

lemma match_fence_first:
  "match_at s = Some m \<Longrightarrow> (\<forall>j<length pre. match_at (drop j (pre @ s)) = None) \<Longrightarrow>
   match_fence (pre @ s) = Some m"
proof (induction pre)
  case Nil
  then show ?case by (simp add: match_fence_here)
next
  case (Cons c pre)
  have a: "match_at ((c # pre) @ s) = None"
    using Cons.prems(2) by (metis drop0 length_greater_0_conv list.discI)
  have "\<forall>j<length pre. match_at (drop j (pre @ s)) = None"
  proof (intro allI impI)
    fix j assume "j < length pre"
    then have "match_at (drop (Suc j) ((c # pre) @ s)) = None"
      using Cons.prems(2) by (metis Suc_less_eq length_Cons)
    then show "match_at (drop j (pre @ s)) = None" by simp
  qed
  with Cons.IH Cons.prems(1) a show ?case by simp
qed

lemma indexOf_ge: "- 1 \<le> indexOf s x"
  by (induction s) (auto simp: Let_def)

lemma indexOf_neg: "indexOf s x = - 1 \<longleftrightarrow> x \<notin> set s"
proof (induction s)
  case Nil
  then show ?case by simp
next
  case (Cons c cs)
  have "- 1 \<le> indexOf cs x" by (rule indexOf_ge)
  then have "indexOf cs x + 1 \<noteq> - 1" by arith
  with Cons show ?case by (auto simp: Let_def)
qed

lemma indexOf_first:
  "a < length s \<Longrightarrow> s ! a = x \<Longrightarrow> (\<forall>i<a. s ! i \<noteq> x) \<Longrightarrow> indexOf s x = int a"
proof (induction s arbitrary: a)
  case Nil
  then show ?case by simp
next
  case (Cons c cs)
  show ?case
  proof (cases a)
    case 0
    with Cons.prems show ?thesis by simp
  next
    case (Suc a')
    with Cons.prems have ne: "c \<noteq> x" by auto
    have "indexOf cs x = int a'"
      using Cons.prems Suc by (intro Cons.IH) auto
    with ne Suc show ?thesis by (simp add: Let_def)
  qed
qed

lemma lastIndexOf_ge: "- 1 \<le> lastIndexOf s x"
  by (induction s) (auto simp: Let_def)

lemma lastIndexOf_neg: "lastIndexOf s x = - 1 \<longleftrightarrow> x \<notin> set s"
proof (induction s)
  case Nil
  then show ?case by simp
next
  case (Cons c cs)
  have "- 1 \<le> lastIndexOf cs x" by (rule lastIndexOf_ge)
  then have "lastIndexOf cs x + 1 \<noteq> - 1" by arith
  with Cons show ?case by (auto simp: Let_def)
qed

lemma lastIndexOf_last:
  "b < length s \<Longrightarrow> s ! b = x \<Longrightarrow> (\<forall>i. b < i \<and> i < length s \<longrightarrow> s ! i \<noteq> x) \<Longrightarrow>
   lastIndexOf s x = int b"
proof (induction s arbitrary: b)
  case Nil
  then show ?case by simp
next
  case (Cons c cs)
  show ?case
  proof (cases b)
    case 0
    have "x \<notin> set cs"
    proof
      assume "x \<in> set cs"
      then obtain k where "k < length cs" "cs ! k = x" by (auto simp: in_set_conv_nth)
      with Cons.prems(3) 0 show False by (auto dest: spec[of _ "Suc k"])
    qed
    then have "lastIndexOf cs x = - 1" by (simp add: lastIndexOf_neg)
    with Cons.prems 0 show ?thesis by simp
  next
    case (Suc b')
    have "lastIndexOf cs x = int b'"
    proof (rule Cons.IH)
      show "b' < length cs" using Cons.prems Suc by simp
      show "cs ! b' = x" using Cons.prems Suc by simp
      show "\<forall>i. b' < i \<and> i < length cs \<longrightarrow> cs ! i \<noteq> x"
        using Cons.prems(3) Suc by (auto dest: spec[of _ "Suc i" for i])
    qed
    with Suc show ?thesis by (simp add: Let_def)
  qed
qed

lemma nth_take_drop_range:
  "b < length s \<Longrightarrow> take (Suc b - a) (drop a s) = map ((!) s) [a..<Suc b]"
proof (rule nth_equalityI)
  assume b: "b < length s"
  show "length (take (Suc b - a) (drop a s)) = length (map ((!) s) [a..<Suc b])"
    using b by (simp del: upt_Suc)
  fix i assume "i < length (take (Suc b - a) (drop a s))"
  then have i: "i < Suc b - a" by simp
  then have "[a..<Suc b] ! i = a + i" by (simp del: upt_Suc)
  then have "map ((!) s) [a..<Suc b] ! i = s ! (a + i)"
    using i by (simp del: upt_Suc)
  moreover have "take (Suc b - a) (drop a s) ! i = s ! (a + i)"
    using i b by simp
  ultimately show "take (Suc b - a) (drop a s) ! i = map ((!) s) [a..<Suc b] ! i" by simp
qed

lemma slice_range:
  "a < length s \<Longrightarrow> b < length s \<Longrightarrow> slice s (int a) (int b + 1) = map ((!) s) [a..<Suc b]"
proof -
  assume a: "a < length s" and b: "b < length s"
  have "nat (int b + 1 - int a) = Suc b - a" by arith
  then have "slice s (int a) (int b + 1) = take (Suc b - a) (drop a s)"
    using a b by (simp add: slice_def Let_def min_def)
  then show ?thesis using b by (simp only: nth_take_drop_range)
qed

lemma length_fence_open: "length fence_open = 7"
  by (simp add: fence_open_def ticks_def js_def)

lemma extractJson_fence:
  assumes t: "t = pre @ opener @ ws @ body @ ticks @ post"
    and op: "map canon opener = map canon fence_open"
    and ws: "\<forall>c\<in>set ws. is_space c"
    and hd: "body = [] \<or> \<not> is_space (hd body)"
    and first: "\<not> sublist ticks (body @ take 2 ticks)"
    and before: "\<forall>j<length pre. \<not> fence_at t j"
  shows "extractJson t = body"
proof -
  let ?rest = "body @ ticks @ post"
  let ?s = "opener @ ws @ ?rest"
  have len: "length opener = length fence_open"
    using op by (metis length_map)
  have "prefix (map canon fence_open) (map canon ?s)"
    using op by (simp add: prefix_def)
  moreover have "drop (length fence_open) ?s = ws @ ?rest"
    using len by simp
  moreover have "dropWhile is_space (ws @ ?rest) = dropWhile is_space ?rest"
    using ws by (simp add: dropWhile_append2)
  moreover have "dropWhile is_space ?rest = ?rest"
  proof (cases body)
    case Nil
    then show ?thesis by (simp add: ticks_def tick_not_space)
  next
    case (Cons c cs)
    with hd show ?thesis by simp
  qed
  moreover have "find_close ?rest = Some body"
    using first by (rule find_close_Some)
  ultimately have m: "match_at ?s = Some body"
    by (simp add: match_at_eq)
  have "\<forall>j<length pre. match_at (drop j (pre @ ?s)) = None"
  proof (intro allI impI)
    fix j assume j: "j < length pre"
    with before have "\<not> fence_at t j" by blast
    moreover have "j \<le> length t" using j t by simp
    ultimately show "match_at (drop j (pre @ ?s)) = None"
      using t by (simp add: fence_at_iff)
  qed
  with m have "match_fence (pre @ ?s) = Some body"
    by (rule match_fence_first)
  then show ?thesis using t by (simp add: extractJson_def)
qed

lemma extractJson_braces:
  assumes nf: "\<not> has_fence t"
    and a: "a < length t" "t ! a = lbrace" "\<forall>i<a. t ! i \<noteq> lbrace"
    and b: "b < length t" "t ! b = rbrace" "\<forall>i. b < i \<and> i < length t \<longrightarrow> t ! i \<noteq> rbrace"
  shows "extractJson t = map ((!) t) [a..<Suc b]"
proof -
  have m: "match_fence t = None" using nf by (simp add: has_fence_iff)
  have ia: "indexOf t lbrace = int a" using a by (rule indexOf_first)
  have ib: "lastIndexOf t rbrace = int b" using b by (rule lastIndexOf_last)
  have "extractJson t = slice t (int a) (int b + 1)"
    by (simp add: extractJson_def m ia ib Let_def)
  then show ?thesis using a(1) b(1) by (simp only: slice_range)
qed

lemma extractJson_raw:
  assumes "\<not> has_fence t" and "lbrace \<notin> set t \<or> rbrace \<notin> set t"
  shows "extractJson t = t"
proof -
  have m: "match_fence t = None" using assms(1) by (simp add: has_fence_iff)
  from assms(2) have "indexOf t lbrace = - 1 \<or> lastIndexOf t rbrace = - 1"
    by (simp add: indexOf_neg lastIndexOf_neg)
  then show ?thesis by (auto simp: extractJson_def m Let_def)
qed

lemma find_close_SomeD:
  "find_close s = Some m \<Longrightarrow> \<exists>post. s = m @ ticks @ post \<and> \<not> sublist ticks (m @ take 2 ticks)"
proof (induction s arbitrary: m)
  case Nil
  then show ?case by simp
next
  case (Cons c cs)
  show ?case
  proof (cases "prefix ticks (c # cs)")
    case True
    with Cons.prems have "m = []" by simp
    moreover from True obtain post where "c # cs = ticks @ post" by (auto simp: prefix_def)
    moreover have "\<not> sublist ticks (take 2 ticks)"
      by (auto dest: sublist_length_le simp: ticks_def)
    ultimately show ?thesis by auto
  next
    case False
    with Cons.prems obtain m' where m': "find_close cs = Some m'" "m = c # m'" by auto
    from Cons.IH[OF m'(1)] obtain post where
      post: "cs = m' @ ticks @ post" "\<not> sublist ticks (m' @ take 2 ticks)" by blast
    have "\<not> prefix ticks (c # m' @ take 2 ticks)"
    proof
      assume "prefix ticks (c # m' @ take 2 ticks)"
      moreover have "prefix (c # m' @ take 2 ticks) (c # cs)"
        using post(1) by (simp add: ticks_def)
      ultimately have "prefix ticks (c # cs)" by (rule prefix_order.trans)
      with False show False by contradiction
    qed
    with post(2) have "\<not> sublist ticks (m @ take 2 ticks)"
      using m'(2) by (simp add: sublist_Cons_right)
    with post(1) m'(2) show ?thesis by auto
  qed
qed

lemma has_fence_split:
  assumes "has_fence t"
  shows "\<exists>pre opener ws body post.
      t = pre @ opener @ ws @ body @ ticks @ post \<and>
      map canon opener = map canon fence_open \<and>
      (\<forall>c\<in>set ws. is_space c) \<and> (body = [] \<or> \<not> is_space (hd body)) \<and>
      \<not> sublist ticks (body @ take 2 ticks) \<and>
      (\<forall>j<length pre. \<not> fence_at t j)"
proof -
  from assms have "\<exists>i. fence_at t i" by (auto simp: has_fence_def)
  then obtain i where i: "fence_at t i" "\<forall>j<i. \<not> fence_at t j"
    by (metis exists_least_iff)
  define s where "s = drop i t"
  define r where "r = drop (length fence_open) s"
  define pre where "pre = take i t"
  define opener where "opener = take (length fence_open) s"
  define ws where "ws = takeWhile is_space r"
  from i(1) have il: "i \<le> length t" and m: "match_at s \<noteq> None"
    by (simp_all add: fence_at_iff s_def)
  from m have pf: "prefix (map canon fence_open) (map canon s)"
    and fc: "find_close (dropWhile is_space r) \<noteq> None"
    by (auto simp: match_at_eq r_def split: if_splits)
  from fc obtain body where body: "find_close (dropWhile is_space r) = Some body" by blast
  from find_close_SomeD[OF body] obtain post where
    post: "dropWhile is_space r = body @ ticks @ post" "\<not> sublist ticks (body @ take 2 ticks)"
    by blast
  have e1: "t = pre @ s" by (simp add: pre_def s_def)
  have e2: "s = opener @ r" by (simp add: opener_def r_def)
  have "r = ws @ dropWhile is_space r" by (simp add: ws_def)
  with post(1) have e3: "r = ws @ body @ ticks @ post" by simp
  have t: "t = pre @ opener @ ws @ body @ ticks @ post"
    using e1 e2 e3 by simp
  from pf obtain zs where "map canon s = map canon fence_open @ zs" by (auto simp: prefix_def)
  then have "take (length fence_open) (map canon s) = map canon fence_open" by simp
  then have op: "map canon opener = map canon fence_open" by (simp add: take_map opener_def)
  have ws: "\<forall>c\<in>set ws. is_space c" by (auto dest: set_takeWhileD simp: ws_def)
  have hd: "body = [] \<or> \<not> is_space (hd body)"
  proof (cases body)
    case Nil
    then show ?thesis by simp
  next
    case (Cons c cs)
    have "\<not> is_space (hd (dropWhile is_space r))"
      using post(1) Cons by (intro hd_dropWhile) auto
    with post(1) Cons show ?thesis by simp
  qed
  have "length pre = i" using il by (simp add: pre_def)
  with i(2) have before: "\<forall>j<length pre. \<not> fence_at t j" by simp
  from t op ws hd post(2) before show ?thesis by blast
qed

lemma first_lbrace_ex: "lbrace \<in> set t \<Longrightarrow> \<exists>a. first_lbrace t a"
proof -
  assume "lbrace \<in> set t"
  then have ex: "\<exists>i. i < length t \<and> t ! i = lbrace" by (auto simp: in_set_conv_nth)
  define a where "a = (LEAST i. i < length t \<and> t ! i = lbrace)"
  have "a < length t \<and> t ! a = lbrace"
    unfolding a_def using ex by (rule LeastI_ex)
  moreover have "\<forall>i<a. t ! i \<noteq> lbrace"
  proof (intro allI impI notI)
    fix i assume ia: "i < a" and e: "t ! i = lbrace"
    from ia have "\<not> (i < length t \<and> t ! i = lbrace)"
      unfolding a_def by (rule not_less_Least)
    moreover have "i < length t" using \<open>i < a\<close> \<open>a < length t \<and> t ! a = lbrace\<close> by simp
    ultimately show False using e by simp
  qed
  ultimately show ?thesis unfolding first_lbrace_def by blast
qed

lemma last_rbrace_ex: "rbrace \<in> set t \<Longrightarrow> \<exists>b. last_rbrace t b"
proof -
  assume "rbrace \<in> set t"
  then have ne: "{i. i < length t \<and> t ! i = rbrace} \<noteq> {}" by (auto simp: in_set_conv_nth)
  have fin: "finite {i. i < length t \<and> t ! i = rbrace}" by simp
  define b where "b = Max {i. i < length t \<and> t ! i = rbrace}"
  have "b \<in> {i. i < length t \<and> t ! i = rbrace}"
    unfolding b_def using fin ne by (rule Max_in)
  moreover have "\<forall>i. b < i \<and> i < length t \<longrightarrow> t ! i \<noteq> rbrace"
  proof (intro allI impI notI)
    fix i assume "b < i \<and> i < length t" and "t ! i = rbrace"
    then have "i \<in> {i. i < length t \<and> t ! i = rbrace}" by simp
    then have "i \<le> b" unfolding b_def using fin by (rule Max_ge[rotated])
    with \<open>b < i \<and> i < length t\<close> show False by simp
  qed
  ultimately show ?thesis unfolding last_rbrace_def by blast
qed

lemma first_lbrace_take:
  "first_lbrace t a \<longleftrightarrow> a < length t \<and> t ! a = lbrace \<and> lbrace \<notin> set (take a t)"
  unfolding first_lbrace_def by (auto simp: in_set_conv_nth)

lemma last_rbrace_drop:
  "last_rbrace t b \<longleftrightarrow> b < length t \<and> t ! b = rbrace \<and> rbrace \<notin> set (drop (Suc b) t)"
proof -
  have "(\<forall>i. b < i \<and> i < length t \<longrightarrow> t ! i \<noteq> rbrace) \<longleftrightarrow> rbrace \<notin> set (drop (Suc b) t)"
  proof
    assume h: "\<forall>i. b < i \<and> i < length t \<longrightarrow> t ! i \<noteq> rbrace"
    show "rbrace \<notin> set (drop (Suc b) t)"
    proof
      assume "rbrace \<in> set (drop (Suc b) t)"
      then obtain k where "k < length (drop (Suc b) t)" "drop (Suc b) t ! k = rbrace"
        by (auto simp: in_set_conv_nth)
      then have "Suc b + k < length t" "t ! (Suc b + k) = rbrace" by auto
      with h show False by (metis add.commute less_add_Suc2 add_Suc_right add_Suc less_Suc_eq_le le_add2 not_less)
    qed
  next
    assume h: "rbrace \<notin> set (drop (Suc b) t)"
    show "\<forall>i. b < i \<and> i < length t \<longrightarrow> t ! i \<noteq> rbrace"
    proof (intro allI impI notI)
      fix i assume i: "b < i \<and> i < length t" and e: "t ! i = rbrace"
      then have "i - Suc b < length (drop (Suc b) t)" by auto
      moreover have "drop (Suc b) t ! (i - Suc b) = rbrace" using i e by auto
      ultimately have "rbrace \<in> set (drop (Suc b) t)" by (metis nth_mem)
      with h show False by contradiction
    qed
  qed
  then show ?thesis unfolding last_rbrace_def by simp
qed

text \<open>
  Claim C2. The candidate \<open>extractJson\<close> selects, first match wins.
  (1) When the text holds a json fence, the text splits at the first one into what
  precedes it, the label in any letter case, the white space after the label, a body, the
  first three backticks after that white space, and the rest; the result is the body alone.
  (2) Otherwise, with \<open>a\<close> the position of the first \<open>{\<close> and \<open>b\<close> that of the last \<open>}\<close>, the
  result is the code units at the positions from \<open>a\<close> to \<open>b\<close> inclusive; both positions
  exist when the text holds both braces.
  (3) Otherwise the result is the text unchanged.
\<close>

theorem extractJson_precedence:
  "(\<forall>pre opener ws body post.
      first_fence t pre opener ws body post \<longrightarrow> extractJson t = body) \<and>
   (has_fence t \<longrightarrow> (\<exists>pre opener ws body post. first_fence t pre opener ws body post)) \<and>
   (\<not> has_fence t \<longrightarrow>
      (\<forall>a b. first_lbrace t a \<and> last_rbrace t b \<longrightarrow> extractJson t = map ((!) t) [a..<Suc b])) \<and>
   (lbrace \<in> set t \<and> rbrace \<in> set t \<longrightarrow> (\<exists>a b. first_lbrace t a \<and> last_rbrace t b)) \<and>
   (\<not> has_fence t \<and> (lbrace \<notin> set t \<or> rbrace \<notin> set t) \<longrightarrow> extractJson t = t)"
proof (intro conjI allI impI)
  fix pre opener ws body post
  assume "first_fence t pre opener ws body post"
  then show "extractJson t = body"
    unfolding first_fence_def by (intro extractJson_fence) blast+
next
  assume "has_fence t"
  then show "\<exists>pre opener ws body post. first_fence t pre opener ws body post"
    unfolding first_fence_def by (rule has_fence_split)
next
  fix a b
  assume "\<not> has_fence t" and "first_lbrace t a \<and> last_rbrace t b"
  then show "extractJson t = map ((!) t) [a..<Suc b]"
    unfolding first_lbrace_def last_rbrace_def by (intro extractJson_braces) blast+
next
  assume "lbrace \<in> set t \<and> rbrace \<in> set t"
  then show "\<exists>a b. first_lbrace t a \<and> last_rbrace t b"
    using first_lbrace_ex last_rbrace_ex by blast
next
  assume "\<not> has_fence t \<and> (lbrace \<notin> set t \<or> rbrace \<notin> set t)"
  then show "extractJson t = t" by (intro extractJson_raw) blast+
qed

lemma fenced_reply_first:
  "first_fence fenced_reply (js ''Hi '') (ticks @ js ''JSON'') [0x0A, 0x20] (js ''{a} '') (js '' }'')"
proof -
  have "\<not> fence_at fenced_reply 0" "\<not> fence_at fenced_reply (Suc 0)"
    "\<not> fence_at fenced_reply (Suc (Suc 0))"
    by code_simp+
  then have "\<forall>j<length (js ''Hi ''). \<not> fence_at fenced_reply j"
    by (simp add: js_def less_Suc_eq numeral_3_eq_3)
  moreover have "\<not> sublist ticks (js ''{a} '' @ take 2 ticks)" by code_simp
  moreover have "map canon (ticks @ js ''JSON'') = map canon fence_open" by code_simp
  moreover have "\<forall>c\<in>set [0x0A, 0x20]. is_space c" by (simp add: is_space_def)
  moreover have "js ''{a} '' = [] \<or> \<not> is_space (hd (js ''{a} ''))" by (simp add: js_def is_space_def)
  ultimately show ?thesis
    unfolding first_fence_def by (simp add: fenced_reply_def)
qed

theorem extractJson_precedence_witness:
  "extractJson fenced_reply = js ''{a} '' \<and>
   extractJson (js ''pre {a} {b} tail'') = js ''{a} {b}'' \<and>
   extractJson (js ''no braces'') = js ''no braces''"
proof (intro conjI)
  show "extractJson fenced_reply = js ''{a} ''"
    using extractJson_precedence[of fenced_reply] fenced_reply_first by blast
next
  let ?t = "js ''pre {a} {b} tail''"
  have nf: "\<not> has_fence ?t" unfolding has_fence_iff by code_simp
  have a: "first_lbrace ?t 4" unfolding first_lbrace_take by code_simp
  have b: "last_rbrace ?t 10" unfolding last_rbrace_drop by code_simp
  have "extractJson ?t = map ((!) ?t) [4..<Suc 10]"
    using extractJson_precedence[of ?t] nf a b by blast
  also have "\<dots> = js ''{a} {b}''" by code_simp
  finally show "extractJson ?t = js ''{a} {b}''" .
next
  let ?t = "js ''no braces''"
  have nf: "\<not> has_fence ?t" unfolding has_fence_iff by code_simp
  have "lbrace \<notin> set ?t" by code_simp
  with nf show "extractJson ?t = ?t"
    using extractJson_precedence[of ?t] by blast
qed

text \<open>
  Claim C10. The last \<open>return text\<close> of \<open>extractJson\<close> is reached exactly when the text
  holds no json fence and lacks a \<open>{\<close> or lacks a \<open>}\<close>. A text without a fence whose last
  \<open>}\<close> stands before its first \<open>{\<close> (such as \<open>}x{\<close>) yields the empty string, which is not
  the text itself, and which \<open>JSON.parse\<close> rejects.
\<close>

theorem extractJson_raw_fallback:
  "((match_fence t = None \<and> \<not> (indexOf t lbrace \<noteq> - 1 \<and> lastIndexOf t rbrace \<noteq> - 1)) \<longleftrightarrow>
      (\<not> has_fence t \<and> (lbrace \<notin> set t \<or> rbrace \<notin> set t))) \<and>
   (\<not> has_fence t \<and> first_lbrace t a \<and> last_rbrace t b \<and> b < a \<longrightarrow>
      extractJson t = [] \<and> extractJson t \<noteq> t \<and>
      (\<forall>env :: 'w env. isl (JSON_parse env (extractJson t))))"
proof (intro conjI impI)
  show "(match_fence t = None \<and> \<not> (indexOf t lbrace \<noteq> - 1 \<and> lastIndexOf t rbrace \<noteq> - 1)) \<longleftrightarrow>
      (\<not> has_fence t \<and> (lbrace \<notin> set t \<or> rbrace \<notin> set t))"
    by (simp add: has_fence_iff indexOf_neg lastIndexOf_neg)
next
  assume h: "\<not> has_fence t \<and> first_lbrace t a \<and> last_rbrace t b \<and> b < a"
  then have "extractJson t = map ((!) t) [a..<Suc b]"
    unfolding first_lbrace_def last_rbrace_def by (intro extractJson_braces) blast+
  moreover have "[a..<Suc b] = []" using h by simp
  ultimately show e: "extractJson t = []" by simp
  from h have "t \<noteq> []" unfolding first_lbrace_def by auto
  with e show "extractJson t \<noteq> t" by simp
  show "\<forall>env :: 'w env. isl (JSON_parse env (extractJson t))"
    using e by (simp add: JSON_parse_def)
qed

theorem extractJson_raw_fallback_witness:
  "\<not> has_fence (js ''}x{'') \<and> first_lbrace (js ''}x{'') 2 \<and> last_rbrace (js ''}x{'') 0 \<and>
   extractJson (js ''}x{'') = [] \<and> extractJson (js ''}x{'') \<noteq> js ''}x{'' \<and>
   (\<forall>env :: unit env. isl (JSON_parse env (extractJson (js ''}x{''))))"
proof -
  let ?t = "js ''}x{''"
  have nf: "\<not> has_fence ?t" unfolding has_fence_iff by code_simp
  have a: "first_lbrace ?t 2" unfolding first_lbrace_take by code_simp
  have b: "last_rbrace ?t 0" unfolding last_rbrace_drop by code_simp
  have lt: "(0::nat) < 2" by simp
  from extractJson_raw_fallback[of ?t 2 0, where ?'w = unit] nf a b lt
  show ?thesis by blast
qed

section \<open>Properties of the gallery scan\<close>

lemma map_set_fresh: "\<not> map_has m k \<Longrightarrow> map_set m k v = m @ [(k, v)]"
  by (simp add: map_set_def)

lemma map_has_snoc: "map_has (m @ [(k, v)]) k' \<longleftrightarrow> map_has m k' \<or> k' = k"
  by (auto simp: map_has_def)

lemma dedup_loop_snoc:
  "dedup_loop m (ps @ [p]) =
     (let m' = dedup_loop m ps in if map_has m' (p_url p) then m' else m' @ [(p_url p, p)])"
  by (induction ps arbitrary: m) (auto simp: map_set_fresh Let_def)

lemma dedup_loop_keys:
  "fst ` set (dedup_loop m ps) = fst ` set m \<union> p_url ` set ps"
proof (induction ps arbitrary: m)
  case Nil
  then show ?case by simp
next
  case (Cons p ps)
  show ?case
  proof (cases "map_has m (p_url p)")
    case True
    then have "p_url p \<in> fst ` set m" by (simp add: map_has_def)
    with True Cons.IH[of m] show ?thesis by auto
  next
    case False
    with Cons.IH[of "m @ [(p_url p, p)]"] show ?thesis
      by (auto simp: map_set_fresh)
  qed
qed

lemma dedup_snoc:
  "dedup (ps @ [p]) = dedup ps @ (if p_url p \<in> p_url ` set ps then [] else [p])"
proof -
  have "map_has (dedup_loop [] ps) (p_url p) \<longleftrightarrow> p_url p \<in> p_url ` set ps"
    unfolding map_has_def by (simp add: dedup_loop_keys)
  then show ?thesis
    by (simp add: dedup_def map_values_def dedup_loop_snoc Let_def)
qed

lemma dedup_Nil: "dedup [] = []"
  by (simp add: dedup_def map_values_def)

lemma dedup_urls: "p_url ` set (dedup ps) = p_url ` set ps"
  by (induction ps rule: rev_induct) (auto simp: dedup_Nil dedup_snoc)

lemma dedup_subset: "set (dedup ps) \<subseteq> set ps"
  by (induction ps rule: rev_induct) (auto simp: dedup_Nil dedup_snoc)

lemma dedup_distinct: "distinct (map p_url (dedup ps))"
proof (induction ps rule: rev_induct)
  case Nil
  then show ?case by (simp add: dedup_Nil)
next
  case (snoc p ps)
  then show ?case using dedup_urls[of ps] by (auto simp: dedup_snoc)
qed

lemma find_snoc:
  "find P (xs @ [x]) = (case find P xs of Some y \<Rightarrow> Some y | None \<Rightarrow> if P x then Some x else None)"
  by (induction xs) auto

lemma dedup_first:
  "q \<in> set (dedup ps) \<Longrightarrow> find (\<lambda>p. p_url p = p_url q) ps = Some q"
proof (induction ps rule: rev_induct)
  case Nil
  then show ?case by (simp add: dedup_Nil)
next
  case (snoc p ps)
  show ?case
  proof (cases "q \<in> set (dedup ps)")
    case True
    with snoc.IH show ?thesis by (simp add: find_snoc)
  next
    case False
    with snoc.prems have qp: "q = p" and new: "p_url p \<notin> p_url ` set ps"
      by (auto simp: dedup_snoc split: if_splits)
    have "\<not> (\<exists>x. x \<in> set ps \<and> p_url x = p_url p)"
    proof
      assume "\<exists>x. x \<in> set ps \<and> p_url x = p_url p"
      then obtain x where "x \<in> set ps" and "p_url x = p_url p" by blast
      then have "p_url p \<in> p_url ` set ps" by (metis imageI)
      with new show False by contradiction
    qed
    then have "find (\<lambda>x. p_url x = p_url p) ps = None"
      unfolding find_None_iff by blast
    with qp show ?thesis by (simp add: find_snoc)
  qed
qed

lemma dedup_positions:
  "dedup ps = map ((!) ps) (filter (first_seen ps) [0..<length ps])"
proof (induction ps rule: rev_induct)
  case Nil
  then show ?case by (simp add: dedup_Nil)
next
  case (snoc p ps)
  have f: "filter (first_seen (ps @ [p])) [0..<length ps] = filter (first_seen ps) [0..<length ps]"
    by (rule filter_cong) (auto simp: first_seen_def nth_append)
  have m: "map ((!) (ps @ [p])) (filter (first_seen ps) [0..<length ps]) =
           map ((!) ps) (filter (first_seen ps) [0..<length ps])"
    by (rule map_cong) (auto simp: nth_append)
  have l: "first_seen (ps @ [p]) (length ps) \<longleftrightarrow> p_url p \<notin> p_url ` set ps"
    by (simp add: first_seen_def)
  show ?case
    by (simp add: dedup_snoc snoc.IH f m l)
qed

lemma prefix_canon_iff:
  "prefix (map canon pat) (map canon s) \<longleftrightarrow> (\<exists>m. prefix m s \<and> map canon m = map canon pat)"
proof
  assume "prefix (map canon pat) (map canon s)"
  then obtain zs where z: "map canon s = map canon pat @ zs" by (auto simp: prefix_def)
  then have "take (length pat) (map canon s) = map canon pat" by simp
  then have "map canon (take (length pat) s) = map canon pat" by (simp add: take_map)
  moreover have "prefix (take (length pat) s) s" by (rule take_is_prefix)
  ultimately show "\<exists>m. prefix m s \<and> map canon m = map canon pat" by blast
next
  assume "\<exists>m. prefix m s \<and> map canon m = map canon pat"
  then obtain m where "prefix m s" and e: "map canon m = map canon pat" by blast
  then have "prefix (map canon m) (map canon s)" by (intro map_mono_prefix)
  with e show "prefix (map canon pat) (map canon s)" by simp
qed

lemma href_pattern_at_iff:
  "href_pattern_at s \<longleftrightarrow>
     (\<exists>m. prefix m s \<and>
        (map canon m = map canon (js ''/project/'') \<or> map canon m = map canon (js ''/software/'')))"
  unfolding href_pattern_at_def prefix_canon_iff by blast

lemma href_test_iff: "href_test h \<longleftrightarrow> href_holds h"
proof (induction h)
  case Nil
  show ?case
    by (auto simp: href_holds_def href_pattern_at_iff)
next
  case (Cons c cs)
  have "href_holds (c # cs) \<longleftrightarrow> href_pattern_at (c # cs) \<or> href_holds cs"
    unfolding href_holds_def href_pattern_at_iff sublist_Cons_right by blast
  with Cons show ?case by simp
qed

lemma scan_anchors_filter:
  "scan_anchors resolve url anchors =
     map (as_project resolve url) (filter (accepted resolve url) anchors)"
  by (induction anchors)
     (simp_all add: Let_def accepted_def claimed_accept_def as_project_def href_test_iff
        includes_js_def anchor_name_def)

text \<open>
  Claim C5, amended. The scan turns into a project exactly the anchors whose href holds
  \<open>/project/\<close> or \<open>/software/\<close> in any letter case, whose trimmed text is longer than two
  code units, and whose resolved URL holds \<open>/project/\<close> or \<open>/software/\<close> in lower case;
  the projects come in the order of their anchors, named by the trimmed text.
\<close>

theorem scan_accepts:
  "scan_anchors resolve url anchors =
     map (as_project resolve url) (filter (accepted resolve url) anchors)"
  by (rule scan_anchors_filter)

theorem scan_accepts_witness:
  "map (as_project resolve_on_devpost gallery_url)
     (filter (accepted resolve_on_devpost gallery_url) two_anchors) =
     [\<lparr>p_name = js ''Foo'', p_url = js ''https://devpost.com/project/42''\<rparr>] \<and>
   harvest resolve_on_devpost gallery_url two_anchors =
     [\<lparr>p_name = js ''Foo'', p_url = js ''https://devpost.com/project/42''\<rparr>]"
proof -
  have "scan_anchors resolve_on_devpost gallery_url two_anchors =
     [\<lparr>p_name = js ''Foo'', p_url = js ''https://devpost.com/project/42''\<rparr>]"
    by code_simp
  moreover have "harvest resolve_on_devpost gallery_url two_anchors =
     [\<lparr>p_name = js ''Foo'', p_url = js ''https://devpost.com/project/42''\<rparr>]"
    by code_simp
  ultimately show ?thesis
    using scan_accepts[of resolve_on_devpost gallery_url two_anchors] by simp
qed

text \<open>
  The claim as stated fails: the href \<open>/Project/42\<close> matches the pattern and the text
  \<open>Foo\<close> is long enough, but the resolved URL \<open>https://devpost.com/Project/42\<close> holds
  neither \<open>/project/\<close> nor \<open>/software/\<close>, so the anchor is dropped.
\<close>

theorem scan_accepts_counterexample:
  "scan_anchors resolve_on_devpost gallery_url [upper_case_anchor] \<noteq>
     map (as_project resolve_on_devpost gallery_url) (filter claimed_accept [upper_case_anchor])"
proof -
  have "href_test (anchor_href upper_case_anchor)" by code_simp
  then have "href_holds (anchor_href upper_case_anchor)" by (simp only: href_test_iff)
  moreover have "length (trim (a_text upper_case_anchor)) > 2" by code_simp
  ultimately have "claimed_accept upper_case_anchor" by (simp add: claimed_accept_def)
  moreover have "scan_anchors resolve_on_devpost gallery_url [upper_case_anchor] = []"
    by code_simp
  ultimately show ?thesis by simp
qed

text \<open>
  Claim C6. The output of the harvest holds every URL of the candidates once; the project
  kept for a URL is the first candidate that carries it, so its name is the first seen; and
  the output is the candidates at the positions where a URL shows up for the first time,
  in that order.
\<close>

theorem harvest_dedup:
  "(let ps = scan_anchors resolve url anchors; out = harvest resolve url anchors in
     distinct (map p_url out) \<and> p_url ` set out = p_url ` set ps \<and>
     (\<forall>q\<in>set out. find (\<lambda>p. p_url p = p_url q) ps = Some q) \<and>
     out = map ((!) ps) (filter (first_seen ps) [0..<length ps]))"
  unfolding Let_def harvest_def
  using dedup_distinct dedup_urls dedup_first dedup_positions by blast

theorem harvest_dedup_witness:
  "harvest resolve_on_devpost gallery_url gallery =
     [\<lparr>p_name = js ''Foo'', p_url = js ''https://devpost.com/project/42''\<rparr>,
      \<lparr>p_name = js ''Bar'', p_url = js ''https://devpost.com/software/x''\<rparr>] \<and>
   map p_name (scan_anchors resolve_on_devpost gallery_url gallery) =
     [js ''Foo'', js ''Bar'', js ''Foo again''] \<and>
   find (\<lambda>p. p_url p = js ''https://devpost.com/project/42'')
     (scan_anchors resolve_on_devpost gallery_url gallery) =
     Some \<lparr>p_name = js ''Foo'', p_url = js ''https://devpost.com/project/42''\<rparr>"
proof -
  let ?foo = "\<lparr>p_name = js ''Foo'', p_url = js ''https://devpost.com/project/42''\<rparr>"
  let ?bar = "\<lparr>p_name = js ''Bar'', p_url = js ''https://devpost.com/software/x''\<rparr>"
  have h: "harvest resolve_on_devpost gallery_url gallery = [?foo, ?bar]"
    by code_simp
  have n: "map p_name (scan_anchors resolve_on_devpost gallery_url gallery) =
     [js ''Foo'', js ''Bar'', js ''Foo again'']"
    by code_simp
  from harvest_dedup[of resolve_on_devpost gallery_url gallery]
  have "\<forall>q\<in>set (harvest resolve_on_devpost gallery_url gallery).
          find (\<lambda>p. p_url p = p_url q) (scan_anchors resolve_on_devpost gallery_url gallery) = Some q"
    unfolding Let_def by blast
  then have "find (\<lambda>p. p_url p = p_url ?foo)
      (scan_anchors resolve_on_devpost gallery_url gallery) = Some ?foo"
    unfolding h by simp
  then show ?thesis using h n by simp
qed

section \<open>Properties of the scoring flow\<close>

lemma by_total_key:
  "r_total x \<noteq> NaN \<Longrightarrow> r_total y \<noteq> NaN \<Longrightarrow>
   js_positive (by_total x y) \<longleftrightarrow> \<not> desc_key (r_total x) \<le> desc_key (r_total y)"
  by (cases "r_total x"; cases "r_total y") (auto simp: by_total_def js_sub_def)

lemma insert_sorted_by_total:
  "r_total x \<noteq> NaN \<Longrightarrow> \<forall>r\<in>set ys. r_total r \<noteq> NaN \<Longrightarrow>
   insert_sorted by_total x ys = insort_key (\<lambda>r. desc_key (r_total r)) x ys"
  by (induction ys) (simp_all add: by_total_key)

lemma sort_js_by_total:
  "\<forall>r\<in>set rs. r_total r \<noteq> NaN \<Longrightarrow>
   sort_js by_total rs = sort_key (\<lambda>r. desc_key (r_total r)) rs"
proof (induction rs)
  case Nil
  then show ?case by (simp add: sort_js_def)
next
  case (Cons r rs)
  let ?k = "\<lambda>r. desc_key (r_total r)"
  from Cons have e: "sort_js by_total rs = sort_key ?k rs" by simp
  have "sort_js by_total (r # rs) = insert_sorted by_total r (sort_js by_total rs)"
    by (simp add: sort_js_def)
  also have "\<dots> = insert_sorted by_total r (sort_key ?k rs)" by (simp only: e)
  also have "\<dots> = insort_key ?k r (sort_key ?k rs)"
    using Cons.prems by (intro insert_sorted_by_total) simp_all
  also have "\<dots> = sort_key ?k (r # rs)" by (simp add: sort_key_def)
  finally show ?case .
qed

lemma desc_key_le:
  "a \<noteq> NaN \<Longrightarrow> b \<noteq> NaN \<Longrightarrow> desc_key a \<le> desc_key b \<Longrightarrow> \<not> js_less a b"
  by (cases a; cases b) auto

lemma desc_key_inj: "desc_key a = desc_key b \<longleftrightarrow> a = b"
  by (cases a; cases b) auto

lemma sort_js_descending:
  assumes "\<forall>r\<in>set rs. r_total r \<noteq> NaN"
  shows "sorted_wrt (\<lambda>a b. \<not> js_less (r_total a) (r_total b)) (sort_js by_total rs)"
proof -
  let ?k = "\<lambda>r. desc_key (r_total r)"
  have "sorted (map ?k (sort_key ?k rs))" by simp
  then have s: "sorted_wrt (\<lambda>a b. ?k a \<le> ?k b) (sort_key ?k rs)"
    by (simp add: sorted_wrt_map)
  have "sorted_wrt (\<lambda>a b. \<not> js_less (r_total a) (r_total b)) (sort_key ?k rs)"
  proof (rule sorted_wrt_mono_rel[OF _ s])
    fix a b assume "a \<in> set (sort_key ?k rs)" "b \<in> set (sort_key ?k rs)" "?k a \<le> ?k b"
    with assms show "\<not> js_less (r_total a) (r_total b)"
      by (intro desc_key_le) simp_all
  qed
  with assms show ?thesis by (simp add: sort_js_by_total)
qed

lemma sort_js_stable:
  assumes "\<forall>r\<in>set rs. r_total r \<noteq> NaN"
  shows "filter (\<lambda>r. r_total r = t) (sort_js by_total rs) = filter (\<lambda>r. r_total r = t) rs"
proof -
  let ?k = "\<lambda>r. desc_key (r_total r)"
  have "filter (\<lambda>r. ?k r = desc_key t) (sort_key ?k rs) = filter (\<lambda>r. ?k r = desc_key t) rs"
    by (rule sort_key_stable)
  with assms show ?thesis by (simp add: sort_js_by_total desc_key_inj)
qed

lemma insert_sorted_mset: "mset (insert_sorted cmp x ys) = add_mset x (mset ys)"
  by (induction ys) simp_all

lemma sort_js_mset: "mset (sort_js cmp rs) = mset rs"
  by (induction rs) (simp_all add: sort_js_def insert_sorted_mset)

lemma api_score_sent:
  "ps \<noteq> [] \<Longrightarrow> rb \<noteq> [] \<Longrightarrow>
   api_score env (Some ps) (Some rb) model w =
     (Sent (sort_js by_total (fst (score_loop env rb (model_or_default model) ps w))),
      snd (score_loop env rb (model_or_default model) ps w))"
  by (simp add: api_score_def split: prod.splits)

lemma get_prop_some:
  "v \<noteq> JNull \<Longrightarrow> v \<noteq> JUndefined \<Longrightarrow> get_prop v k = Inr (opt_prop v k)"
  by (cases v) (simp_all add: opt_prop_def)


lemma item_term_some:
  "it \<noteq> JNull \<Longrightarrow> it \<noteq> JUndefined \<Longrightarrow>
   item_term env it = Inr (js_mul (weight_of env it) (score_of env it))"
  by (simp add: item_term_def get_prop_some weight_of_def score_of_def)












text \<open>
  Claim C4, amended. The handler sends the results of the loop reordered by
  \<open>sort\<close> with the comparator \<open>b.total - a.total\<close>, the same results as the input. When no
  total is \<open>NaN\<close>, totals never increase along the output and the results that share a
  total keep their input order. For totals 40, 90, 70 the order is 90, 70, 40.
\<close>

theorem ranked_descending:
  "(ps \<noteq> [] \<and> rb \<noteq> [] \<longrightarrow>
      fst (api_score env (Some ps) (Some rb) model w) =
        Sent (sort_js by_total (fst (score_loop env rb (model_or_default model) ps w)))) \<and>
   mset (sort_js by_total rs) = mset rs \<and>
   ((\<forall>r\<in>set rs. r_total r \<noteq> NaN) \<longrightarrow>
      sorted_wrt (\<lambda>a b. \<not> js_less (r_total a) (r_total b)) (sort_js by_total rs) \<and>
      (\<forall>t. filter (\<lambda>r. r_total r = t) (sort_js by_total rs) = filter (\<lambda>r. r_total r = t) rs))"
proof (intro conjI impI allI)
  assume "ps \<noteq> [] \<and> rb \<noteq> []"
  then show "fst (api_score env (Some ps) (Some rb) model w) =
        Sent (sort_js by_total (fst (score_loop env rb (model_or_default model) ps w)))"
    by (simp add: api_score_sent)
next
  show "mset (sort_js by_total rs) = mset rs" by (rule sort_js_mset)
next
  assume "\<forall>r\<in>set rs. r_total r \<noteq> NaN"
  then show "sorted_wrt (\<lambda>a b. \<not> js_less (r_total a) (r_total b)) (sort_js by_total rs)"
    by (rule sort_js_descending)
next
  fix t assume "\<forall>r\<in>set rs. r_total r \<noteq> NaN"
  then show "filter (\<lambda>r. r_total r = t) (sort_js by_total rs) = filter (\<lambda>r. r_total r = t) rs"
    by (rule sort_js_stable)
qed

theorem ranked_descending_witness:
  "map r_total (sort_js by_total (ranked [Fin 40, Fin 90, Fin 70])) = [Fin 90, Fin 70, Fin 40] \<and>
   map r_name (sort_js by_total (ranked [Fin 70, Fin 90, Fin 70, Fin 40, Fin 90])) =
     [js ''1'', js ''4'', js ''0'', js ''2'', js ''3''] \<and>
   sorted_wrt (\<lambda>a b. \<not> js_less (r_total a) (r_total b))
     (sort_js by_total (ranked [Fin 40, Fin 90, Fin 70])) \<and>
   fst (api_score demo_env (Some demo_projects) (Some demo_rubric) None 0) =
     Sent (sort_js by_total (fst (score_loop demo_env demo_rubric default_model demo_projects 0))) \<and>
   map r_total (sort_js by_total (fst (score_loop demo_env demo_rubric default_model demo_projects 0))) =
     [Fin 90, Fin 68, Fin 0, Fin 0]"
proof -
  have a: "map r_total (sort_js by_total (ranked [Fin 40, Fin 90, Fin 70])) =
     [Fin 90, Fin 70, Fin 40]" by code_simp
  have b: "map r_name (sort_js by_total (ranked [Fin 70, Fin 90, Fin 70, Fin 40, Fin 90])) =
     [js ''1'', js ''4'', js ''0'', js ''2'', js ''3'']" by code_simp
  have c: "map r_total (sort_js by_total
      (fst (score_loop demo_env demo_rubric default_model demo_projects 0))) =
      [Fin 90, Fin 68, Fin 0, Fin 0]"
    by code_simp
  have n: "\<forall>r\<in>set (ranked [Fin 40, Fin 90, Fin 70]). r_total r \<noteq> NaN" by code_simp
  have p: "demo_projects \<noteq> [] \<and> demo_rubric \<noteq> []"
    by (simp add: demo_projects_def demo_rubric_def)
  have m: "model_or_default None = default_model" by (simp add: model_or_default_def)
  note t = ranked_descending[where ps = demo_projects and rb = demo_rubric and env = demo_env
      and model = None and w = 0 and rs = "ranked [Fin 40, Fin 90, Fin 70]"]
  from t[THEN conjunct1, THEN mp, OF p] m
  have d: "fst (api_score demo_env (Some demo_projects) (Some demo_rubric) None 0) =
     Sent (sort_js by_total (fst (score_loop demo_env demo_rubric default_model demo_projects 0)))"
    by simp
  from t[THEN conjunct2, THEN conjunct2, THEN mp, OF n, THEN conjunct1]
  have s: "sorted_wrt (\<lambda>a b. \<not> js_less (r_total a) (r_total b))
     (sort_js by_total (ranked [Fin 40, Fin 90, Fin 70]))" .
  from a b c d s show ?thesis by simp
qed

text \<open>
  The claim as stated fails. A model reply with an item of weight \<open>1e999\<close> and score 0 and
  no total makes line 179 compute \<open>Infinity * 0\<close>, so that project's total is \<open>NaN\<close>;
  every comparison with it yields \<open>NaN\<close>, and the results with totals 5, \<open>NaN\<close>, 10 are
  sent in that order, 5 before 10.
\<close>

theorem ranked_descending_counterexample:
  "items_and_total overflow_env overflow_payload =
     Inr ([JObj [(js ''weight'', JNum PInf), (js ''score'', JNum (Fin 0))]], NaN) \<and>
   map r_error (fst (score_loop overflow_env demo_rubric default_model overflow_projects 0)) =
     [None, None, None] \<and>
   fst (api_score overflow_env (Some overflow_projects) (Some demo_rubric) None 0) =
     Sent (sort_js by_total
       (fst (score_loop overflow_env demo_rubric default_model overflow_projects 0))) \<and>
   map r_total (sort_js by_total
       (fst (score_loop overflow_env demo_rubric default_model overflow_projects 0))) =
     [Fin 5, NaN, Fin 10] \<and>
   js_less (Fin 5) (Fin 10) \<and>
   \<not> sorted_wrt (\<lambda>a b. \<not> js_less (r_total a) (r_total b))
       (sort_js by_total
         (fst (score_loop overflow_env demo_rubric default_model overflow_projects 0)))"
proof (intro conjI)
  show "items_and_total overflow_env overflow_payload =
     Inr ([JObj [(js ''weight'', JNum PInf), (js ''score'', JNum (Fin 0))]], NaN)"
    by code_simp
  show "map r_error (fst (score_loop overflow_env demo_rubric default_model overflow_projects 0)) =
     [None, None, None]"
    by code_simp
  show "fst (api_score overflow_env (Some overflow_projects) (Some demo_rubric) None 0) =
     Sent (sort_js by_total
       (fst (score_loop overflow_env demo_rubric default_model overflow_projects 0)))"
    by (simp add: api_score_sent overflow_projects_def demo_rubric_def model_or_default_def)
  show "map r_total (sort_js by_total
       (fst (score_loop overflow_env demo_rubric default_model overflow_projects 0))) =
     [Fin 5, NaN, Fin 10]"
    by code_simp
  show "js_less (Fin 5) (Fin 10)" by simp
  show "\<not> sorted_wrt (\<lambda>a b. \<not> js_less (r_total a) (r_total b))
       (sort_js by_total
         (fst (score_loop overflow_env demo_rubric default_model overflow_projects 0)))"
    by code_simp
qed



lemma array_or_empty_other: "(\<forall>xs. v \<noteq> JArr xs) \<Longrightarrow> array_or_empty v = []"
  by (cases v) (simp_all add: array_or_empty_def)

lemma criteria_of_some:
  "parsed \<noteq> JNull \<Longrightarrow> parsed \<noteq> JUndefined \<Longrightarrow>
   criteria_of parsed = Inr (array_or_empty (opt_prop parsed (js ''criteria'')))"
  by (simp add: criteria_of_def get_prop_some)

lemma items_and_total_no_items:
  assumes "payload \<noteq> JNull" "payload \<noteq> JUndefined"
    and "\<forall>xs. opt_prop payload (js ''items'') \<noteq> JArr xs"
  shows "items_and_total env payload =
     Inr ([], if reported_total (opt_prop payload (js ''total'')) = NaN then Fin 0
              else reported_total (opt_prop payload (js ''total'')))"
  using assms array_or_empty_other[of "opt_prop payload (js ''items'')"]
  by (auto simp: items_and_total_def get_prop_some Let_def js_falsy_def)

lemma num_or_0_NaN: "Number_js env v = NaN \<Longrightarrow> num_or_0 env v = Fin 0"
  by (simp add: num_or_0_def js_falsy_def)

lemma num_or_0_values:
  "num_or_0 env JUndefined = Fin 0" "num_or_0 env JNull = Fin 0"
  "num_or_0 env (JBool False) = Fin 0" "num_or_0 env (JBool True) = Fin 1"
  "num_or_0 env (JNum (Fin q)) = Fin q"
  by (simp_all add: num_or_0_def js_falsy_def)

lemma parse_rubric_SentD:
  "parse_rubric env model file w = (Sent c, w') \<Longrightarrow>
   \<exists>buffer doc raw decoded.
     file = Some buffer \<and> pdf_text env buffer = Inr doc \<and>
     geminiCall env (model_or_default model) (rubric_prompt env doc) None w = (Inr raw, w') \<and>
     JSON_parse env (extractJson raw) = Inr decoded \<and> criteria_of decoded = Inr c"
  unfolding parse_rubric_def
  by (auto split: option.splits sum.splits prod.splits)

text \<open>
  Claim C7, amended. For a decoded value other than \<open>null\<close>, a \<open>criteria\<close> field (rubric
  flow) or an \<open>items\<close> field (scoring flow) that is missing or not an array becomes the
  empty sequence and no error. In the recomputed total an item other than \<open>null\<close>
  contributes weight times score, each read through \<open>Number(v) || 0\<close>: a field that
  \<open>Number\<close> turns into \<open>NaN\<close> (a missing one included) counts as 0, so do \<open>null\<close> and
  \<open>false\<close>, while \<open>true\<close> counts as 1 and a finite number as itself. The criteria the
  rubric flow sends are those of the value decoded from the model's reply.
\<close>

theorem coerced_fields:
  "(parsed \<noteq> JNull \<and> parsed \<noteq> JUndefined \<longrightarrow>
      criteria_of parsed = Inr (array_or_empty (opt_prop parsed (js ''criteria'')))) \<and>
   (parse_rubric env model file w = (Sent c, w') \<longrightarrow>
      (\<exists>buffer doc raw decoded.
         file = Some buffer \<and> pdf_text env buffer = Inr doc \<and>
         geminiCall env (model_or_default model) (rubric_prompt env doc) None w = (Inr raw, w') \<and>
         JSON_parse env (extractJson raw) = Inr decoded \<and> criteria_of decoded = Inr c)) \<and>
   ((\<forall>xs. v \<noteq> JArr xs) \<longrightarrow> array_or_empty v = []) \<and>
   (payload \<noteq> JNull \<and> payload \<noteq> JUndefined \<and> (\<forall>xs. opt_prop payload (js ''items'') \<noteq> JArr xs) \<longrightarrow>
      items_and_total env payload =
        Inr ([], if reported_total (opt_prop payload (js ''total'')) = NaN then Fin 0
                 else reported_total (opt_prop payload (js ''total'')))) \<and>
   (it \<noteq> JNull \<and> it \<noteq> JUndefined \<longrightarrow>
      item_term env it = Inr (js_mul (weight_of env it) (score_of env it))) \<and>
   (Number_js env v = NaN \<longrightarrow> num_or_0 env v = Fin 0) \<and>
   num_or_0 env JUndefined = Fin 0 \<and> num_or_0 env JNull = Fin 0 \<and>
   num_or_0 env (JBool False) = Fin 0 \<and> num_or_0 env (JBool True) = Fin 1 \<and>
   num_or_0 env (JNum (Fin q)) = Fin q"
proof (intro conjI impI)
  assume "parsed \<noteq> JNull \<and> parsed \<noteq> JUndefined"
  then show "criteria_of parsed = Inr (array_or_empty (opt_prop parsed (js ''criteria'')))"
    by (intro criteria_of_some) simp_all
next
  assume "parse_rubric env model file w = (Sent c, w')"
  then show "\<exists>buffer doc raw decoded.
         file = Some buffer \<and> pdf_text env buffer = Inr doc \<and>
         geminiCall env (model_or_default model) (rubric_prompt env doc) None w = (Inr raw, w') \<and>
         JSON_parse env (extractJson raw) = Inr decoded \<and> criteria_of decoded = Inr c"
    by (rule parse_rubric_SentD)
next
  assume "\<forall>xs. v \<noteq> JArr xs"
  then show "array_or_empty v = []" by (rule array_or_empty_other)
next
  assume "payload \<noteq> JNull \<and> payload \<noteq> JUndefined \<and> (\<forall>xs. opt_prop payload (js ''items'') \<noteq> JArr xs)"
  then show "items_and_total env payload =
        Inr ([], if reported_total (opt_prop payload (js ''total'')) = NaN then Fin 0
                 else reported_total (opt_prop payload (js ''total'')))"
    by (intro items_and_total_no_items) simp_all
next
  assume "it \<noteq> JNull \<and> it \<noteq> JUndefined"
  then show "item_term env it = Inr (js_mul (weight_of env it) (score_of env it))"
    by (intro item_term_some) simp_all
next
  assume "Number_js env v = NaN"
  then show "num_or_0 env v = Fin 0" by (rule num_or_0_NaN)
qed (rule num_or_0_values)+

theorem coerced_fields_witness:
  "criteria_of delta_payload = Inr [] \<and>
   items_and_total demo_env delta_payload = Inr ([], Fin 90) \<and>
   item_term demo_env odd_item = Inr (Fin 0) \<and>
   fst (parse_rubric demo_env None (Some [1, 2, 3]) 0) = Sent demo_rubric"
proof -
  note t = coerced_fields[where parsed = delta_payload and payload = delta_payload
      and env = demo_env and it = odd_item]
  have n: "delta_payload \<noteq> JNull \<and> delta_payload \<noteq> JUndefined"
    by (simp add: delta_payload_def)
  have a: "array_or_empty (opt_prop delta_payload (js ''criteria'')) = []" by code_simp
  have "opt_prop delta_payload (js ''items'') = JStr (js ''none'')" by code_simp
  then have i: "\<forall>xs. opt_prop delta_payload (js ''items'') \<noteq> JArr xs" by simp
  have r: "reported_total (opt_prop delta_payload (js ''total'')) = Fin 90" by code_simp
  have o: "odd_item \<noteq> JNull \<and> odd_item \<noteq> JUndefined" by (simp add: odd_item_def)
  have w: "weight_of demo_env odd_item = Fin 0" "score_of demo_env odd_item = Fin 0"
    by code_simp+
  have p: "fst (parse_rubric demo_env None (Some [1, 2, 3]) 0) = Sent demo_rubric" by code_simp
  from t[THEN conjunct1, THEN mp, OF n] a
  have c1: "criteria_of delta_payload = Inr []" by simp
  from t[THEN conjunct2, THEN conjunct2, THEN conjunct2, THEN conjunct1, THEN mp] n i r
  have c2: "items_and_total demo_env delta_payload = Inr ([], Fin 90)" by simp
  from t[THEN conjunct2, THEN conjunct2, THEN conjunct2, THEN conjunct2, THEN conjunct1, THEN mp, OF o] w
  have c3: "item_term demo_env odd_item = Inr (Fin 0)" by simp
  from c1 c2 c3 p show ?thesis by simp
qed

text \<open>
  The claim as stated fails: the weight \<open>true\<close> is not a number and counts as 1, not 0, so
  an item with weight \<open>true\<close> and score 50 adds 50; and a decoded \<open>null\<close>, which has no
  \<open>criteria\<close> field, makes the rubric flow throw a TypeError.
\<close>

theorem coerced_fields_counterexample:
  "(\<forall>n. JBool True \<noteq> JNum n) \<and> num_or_0 demo_env (JBool True) = Fin 1 \<and>
   item_term demo_env (JObj [(js ''weight'', JBool True), (js ''score'', JNum (Fin 50))]) =
     Inr (Fin 50) \<and>
   criteria_of JNull = Inl (TypeError_read (js ''null'') (js ''criteria''))"
proof (intro conjI)
  show "\<forall>n. JBool True \<noteq> JNum n" by simp
  show "num_or_0 demo_env (JBool True) = Fin 1" by (simp add: num_or_0_def js_falsy_def)
  show "item_term demo_env (JObj [(js ''weight'', JBool True), (js ''score'', JNum (Fin 50))]) =
     Inr (Fin 50)"
    by code_simp
  show "criteria_of JNull = Inl (TypeError_read (js ''null'') (js ''criteria''))"
    by (simp add: criteria_of_def)
qed

lemma score_loop_Cons:
  "score_loop env rb mdl (p # ps) w =
     (settle p (fst (score_project env rb mdl p w)) #
        fst (score_loop env rb mdl ps (snd (score_project env rb mdl p w))),
      snd (score_loop env rb mdl ps (snd (score_project env rb mdl p w))))"
  by (simp split: prod.splits)

lemma score_loop_length: "length (fst (score_loop env rb mdl ps w)) = length ps"
  by (induction ps arbitrary: w) (simp_all only: score_loop_Cons score_loop.simps fst_conv list.size)

lemma score_loop_append:
  "score_loop env rb mdl (xs @ ys) w =
     (fst (score_loop env rb mdl xs w) @ fst (score_loop env rb mdl ys (snd (score_loop env rb mdl xs w))),
      snd (score_loop env rb mdl ys (snd (score_loop env rb mdl xs w))))"
  by (induction xs arbitrary: w) (simp_all add: score_loop_Cons del: score_loop.simps(2))

lemma score_loop_single:
  "score_loop env rb mdl [p] w =
     ([settle p (fst (score_project env rb mdl p w))], snd (score_project env rb mdl p w))"
  by (simp split: prod.splits)

lemma score_loop_results:
  "fst (score_loop env rb mdl ps w) =
     map (\<lambda>i. settle (ps ! i) (outcome env rb mdl ps w i)) [0..<length ps]"
proof (induction ps rule: rev_induct)
  case Nil
  then show ?case by simp
next
  case (snoc p ps)
  have old: "map (\<lambda>i. settle ((ps @ [p]) ! i) (outcome env rb mdl (ps @ [p]) w i)) [0..<length ps] =
             map (\<lambda>i. settle (ps ! i) (outcome env rb mdl ps w i)) [0..<length ps]"
    by (rule map_cong) (auto simp: outcome_def world_before_def nth_append)
  have new: "settle ((ps @ [p]) ! length ps) (outcome env rb mdl (ps @ [p]) w (length ps)) =
             settle p (fst (score_project env rb mdl p (snd (score_loop env rb mdl ps w))))"
    by (simp add: outcome_def world_before_def)
  have "fst (score_loop env rb mdl (ps @ [p]) w) =
        fst (score_loop env rb mdl ps w) @
        [settle p (fst (score_project env rb mdl p (snd (score_loop env rb mdl ps w))))]"
    by (simp only: score_loop_append score_loop_single fst_conv)
  also have "\<dots> = map (\<lambda>i. settle (ps ! i) (outcome env rb mdl ps w i)) [0..<length ps] @
        [settle ((ps @ [p]) ! length ps) (outcome env rb mdl (ps @ [p]) w (length ps))]"
    by (simp only: snoc.IH new)
  also have "\<dots> = map (\<lambda>i. settle ((ps @ [p]) ! i) (outcome env rb mdl (ps @ [p]) w i))
        ([0..<length ps] @ [length ps])"
    by (simp only: old map_append list.map)
  finally show ?case by simp
qed

lemma score_loop_nth:
  "i < length ps \<Longrightarrow>
   fst (score_loop env rb mdl ps w) ! i = settle (ps ! i) (outcome env rb mdl ps w i)"
  by (simp add: score_loop_results)

lemma err_text_props:
  "(emessage e \<noteq> [] \<longrightarrow> err_text e = emessage e) \<and>
   (ename e \<noteq> [] \<or> emessage e \<noteq> [] \<longrightarrow> err_text e \<noteq> [])"
  by (simp add: err_text_def)

lemma score_project_fetch_fails:
  "fetch env (page_request (p_url p)) w = (Inl e, w1) \<Longrightarrow>
   score_project env rb mdl p w = (Inl e, w1)"
  by (simp add: score_project_def)

text \<open>
  Claim C1. The loop yields one result per input project, in input order. The \<open>i\<close>-th
  result depends on the \<open>i\<close>-th project alone, processed in the world the earlier projects
  left: when that processing throws \<open>e\<close> (a page fetch that throws is one such case) the
  result is the placeholder with total 0, no items and the error text
  \<open>String(e.message || e)\<close>, which is the message of \<open>e\<close> when it has one and is not
  empty when \<open>e\<close> has a name or a message; when it returns a result, that result stands.
  The handler sends these results, reordered only, so one entry per input project.
\<close>

theorem failures_isolated:
  "(let results = fst (score_loop env rb mdl ps w) in
      length results = length ps \<and>
      (\<forall>i<length ps.
         (\<forall>e. outcome env rb mdl ps w i = Inl e \<longrightarrow>
            results ! i =
              \<lparr>r_name = (if p_name (ps ! i) \<noteq> [] then p_name (ps ! i) else js ''Untitled''),
               r_url = p_url (ps ! i), r_items = [], r_total = Fin 0, r_error = Some (err_text e)\<rparr> \<and>
            (emessage e \<noteq> [] \<longrightarrow> err_text e = emessage e) \<and>
            (ename e \<noteq> [] \<or> emessage e \<noteq> [] \<longrightarrow> err_text e \<noteq> [])) \<and>
         (\<forall>r. outcome env rb mdl ps w i = Inr r \<longrightarrow> results ! i = r))) \<and>
   (fetch env (page_request (p_url p)) w = (Inl e, w1) \<longrightarrow>
      score_project env rb mdl p w = (Inl e, w1)) \<and>
   (ps \<noteq> [] \<and> rb \<noteq> [] \<longrightarrow>
      (\<exists>out w'. api_score env (Some ps) (Some rb) model w = (Sent out, w') \<and>
         length out = length ps \<and>
         mset out = mset (fst (score_loop env rb (model_or_default model) ps w))))"
proof (intro conjI)
  show "let results = fst (score_loop env rb mdl ps w) in
      length results = length ps \<and>
      (\<forall>i<length ps.
         (\<forall>e. outcome env rb mdl ps w i = Inl e \<longrightarrow>
            results ! i =
              \<lparr>r_name = (if p_name (ps ! i) \<noteq> [] then p_name (ps ! i) else js ''Untitled''),
               r_url = p_url (ps ! i), r_items = [], r_total = Fin 0, r_error = Some (err_text e)\<rparr> \<and>
            (emessage e \<noteq> [] \<longrightarrow> err_text e = emessage e) \<and>
            (ename e \<noteq> [] \<or> emessage e \<noteq> [] \<longrightarrow> err_text e \<noteq> [])) \<and>
         (\<forall>r. outcome env rb mdl ps w i = Inr r \<longrightarrow> results ! i = r))"
    unfolding Let_def
  proof (intro conjI allI impI)
    show "length (fst (score_loop env rb mdl ps w)) = length ps" by (rule score_loop_length)
  next
    fix i e assume "i < length ps" and "outcome env rb mdl ps w i = Inl e"
    then show "fst (score_loop env rb mdl ps w) ! i =
              \<lparr>r_name = (if p_name (ps ! i) \<noteq> [] then p_name (ps ! i) else js ''Untitled''),
               r_url = p_url (ps ! i), r_items = [], r_total = Fin 0, r_error = Some (err_text e)\<rparr>"
      by (simp add: score_loop_nth settle_def placeholder_def)
  next
    fix e :: jserr assume "emessage e \<noteq> []"
    then show "err_text e = emessage e" by (simp add: err_text_def)
  next
    fix e :: jserr assume "ename e \<noteq> [] \<or> emessage e \<noteq> []"
    then show "err_text e \<noteq> []" by (auto simp: err_text_def)
  next
    fix i r assume "i < length ps" and "outcome env rb mdl ps w i = Inr r"
    then show "fst (score_loop env rb mdl ps w) ! i = r"
      by (simp add: score_loop_nth settle_def)
  qed
next
  show "fetch env (page_request (p_url p)) w = (Inl e, w1) \<longrightarrow>
      score_project env rb mdl p w = (Inl e, w1)"
    by (intro impI) (rule score_project_fetch_fails)
next
  show "ps \<noteq> [] \<and> rb \<noteq> [] \<longrightarrow>
      (\<exists>out w'. api_score env (Some ps) (Some rb) model w = (Sent out, w') \<and>
         length out = length ps \<and>
         mset out = mset (fst (score_loop env rb (model_or_default model) ps w)))"
  proof (intro impI)
    assume a: "ps \<noteq> [] \<and> rb \<noteq> []"
    let ?rs = "fst (score_loop env rb (model_or_default model) ps w)"
    from a have "api_score env (Some ps) (Some rb) model w =
        (Sent (sort_js by_total ?rs), snd (score_loop env rb (model_or_default model) ps w))"
      by (intro api_score_sent) simp_all
    moreover have "mset (sort_js by_total ?rs) = mset ?rs" by (rule sort_js_mset)
    moreover from this have "length (sort_js by_total ?rs) = length ?rs"
      by (rule mset_eq_length)
    ultimately show "\<exists>out w'. api_score env (Some ps) (Some rb) model w = (Sent out, w') \<and>
         length out = length ps \<and> mset out = mset ?rs"
      by (simp add: score_loop_length)
  qed
qed

theorem failures_isolated_witness:
  "outcome demo_env demo_rubric default_model demo_projects 0 1 =
     Inl (JsErr (js ''FetchError'') (js ''socket hang up'')) \<and>
   fst (score_loop demo_env demo_rubric default_model demo_projects 0) ! 1 =
     \<lparr>r_name = js ''B'', r_url = js ''https://devpost.com/software/b'', r_items = [],
      r_total = Fin 0, r_error = Some (js ''socket hang up'')\<rparr> \<and>
   fst (score_loop demo_env demo_rubric default_model demo_projects 0) ! 2 =
     \<lparr>r_name = js ''Untitled'', r_url = js ''https://devpost.com/software/c'', r_items = [],
      r_total = Fin 0, r_error = Some (js ''Fetch 404'')\<rparr> \<and>
   map r_error (fst (score_loop demo_env demo_rubric default_model demo_projects 0)) =
     [None, Some (js ''socket hang up''), Some (js ''Fetch 404''), None] \<and>
   map r_name (fst (score_loop demo_env demo_rubric default_model demo_projects 0)) =
     [js ''Alpha'', js ''B'', js ''Untitled'', js ''Delta''] \<and>
   length (fst (score_loop demo_env demo_rubric default_model demo_projects 0)) = 4"
proof -
  let ?rs = "fst (score_loop demo_env demo_rubric default_model demo_projects 0)"
  let ?e = "JsErr (js ''FetchError'') (js ''socket hang up'')"
  have o: "outcome demo_env demo_rubric default_model demo_projects 0 1 = Inl ?e"
    by code_simp
  have l: "length demo_projects = 4" by (simp add: demo_projects_def)
  have p: "demo_projects ! 1 = \<lparr>p_name = js ''B'', p_url = js ''https://devpost.com/software/b''\<rparr>"
    by (simp add: demo_projects_def)
  have t: "err_text ?e = js ''socket hang up''" by (simp add: err_text_def js_def)
  have n: "js ''B'' \<noteq> []" by (simp add: js_def)
  note f = failures_isolated[where env = demo_env and rb = demo_rubric and mdl = default_model
      and ps = demo_projects and w = 0, THEN conjunct1, unfolded Let_def]
  from f have len: "length ?rs = 4" using l by simp
  from f have "\<forall>i<length demo_projects. \<forall>e.
      outcome demo_env demo_rubric default_model demo_projects 0 i = Inl e \<longrightarrow>
      ?rs ! i = \<lparr>r_name = (if p_name (demo_projects ! i) \<noteq> [] then p_name (demo_projects ! i)
                            else js ''Untitled''),
               r_url = p_url (demo_projects ! i), r_items = [], r_total = Fin 0,
               r_error = Some (err_text e)\<rparr>"
    by blast
  with o l have "?rs ! 1 = \<lparr>r_name = (if p_name (demo_projects ! 1) \<noteq> []
                                      then p_name (demo_projects ! 1) else js ''Untitled''),
               r_url = p_url (demo_projects ! 1), r_items = [], r_total = Fin 0,
               r_error = Some (err_text ?e)\<rparr>"
    by (metis one_less_numeral_iff semiring_norm(76))
  with p t n have b: "?rs ! 1 = \<lparr>r_name = js ''B'', r_url = js ''https://devpost.com/software/b'',
      r_items = [], r_total = Fin 0, r_error = Some (js ''socket hang up'')\<rparr>"
    by simp
  have c: "?rs ! 2 = \<lparr>r_name = js ''Untitled'', r_url = js ''https://devpost.com/software/c'',
      r_items = [], r_total = Fin 0, r_error = Some (js ''Fetch 404'')\<rparr>"
    by code_simp
  have d: "map r_error ?rs = [None, Some (js ''socket hang up''), Some (js ''Fetch 404''), None]"
    by code_simp
  have e: "map r_name ?rs = [js ''Alpha'', js ''B'', js ''Untitled'', js ''Delta'']"
    by code_simp
  from o b c d e len show ?thesis by simp
qed


section \<open>Properties of the client\<close>

lemma no_credential_iff:
  "no_credential env apiKey \<longleftrightarrow> credential env apiKey = None \<or> credential env apiKey = Some []"
  by (auto simp: no_credential_def credential_def truthy_str_def split: option.splits)

lemma geminiCall_no_credential:
  "no_credential env apiKey \<Longrightarrow>
   geminiCall env model prompt apiKey w =
     (Inl (new_Error (js ''Missing GEMINI_API_KEY (set in backend .env)'')), w)"
  unfolding no_credential_iff by (auto simp: geminiCall_def)

lemma slice_take: "slice t 0 (int n) = take n t"
  by (simp add: slice_def Let_def min_def)

lemma geminiCall_answered:
  assumes "credential env apiKey = Some key" "key \<noteq> []"
    and "gemini_url env model key = Inr url"
    and "fetch env (gemini_request url prompt) w = (Inr resp, w')"
  shows "geminiCall env model prompt apiKey w =
     (if \<not> resp_ok resp
      then (case resp_body resp of
              Inl e \<Rightarrow> (Inl e, w')
            | Inr t \<Rightarrow> (Inl (new_Error (js ''Gemini error '' @ show_nat (resp_status resp) @
                                js '': '' @ take 400 t)), w'))
      else (case resp_body resp of
              Inl e \<Rightarrow> (Inl e, w')
            | Inr b \<Rightarrow>
                (case JSON_parse env b of
                   Inl e \<Rightarrow> (Inl e, w')
                 | Inr data \<Rightarrow>
                     (case reply_text data of
                        Inl e \<Rightarrow> (Inl e, w')
                      | Inr s \<Rightarrow> if s = [] then (Inl (new_Error (js ''Empty Gemini response'')), w')
                                else (Inr s, w')))))"
proof -
  have "slice t 0 400 = take 400 t" for t :: jsstr
    using slice_take[of t 400] by simp
  with assms show ?thesis
    by (simp add: geminiCall_def split: sum.splits)
qed

lemma geminiCall_transport:
  assumes "credential env apiKey = Some key" "key \<noteq> []"
    and "gemini_url env model key = Inr url"
    and "fetch env (gemini_request url prompt) w = (Inl e, w')"
  shows "geminiCall env model prompt apiKey w = (Inl e, w')"
  using assms by (simp add: geminiCall_def)

lemma trim_Nil: "trim [] = []"
  by (simp add: trim_def)

lemma dropWhile_space_Nil: "dropWhile is_space s = [] \<longleftrightarrow> (\<forall>c\<in>set s. is_space c)"
  by (simp add: dropWhile_eq_Nil_conv)

lemma trim_empty_iff: "trim s = [] \<longleftrightarrow> (\<forall>c\<in>set s. is_space c)"
proof
  assume "trim s = []"
  then have a: "\<forall>c\<in>set (dropWhile is_space s). is_space c"
    by (simp add: trim_def dropWhile_eq_Nil_conv)
  have "dropWhile is_space s = []"
  proof (rule ccontr)
    assume n: "dropWhile is_space s \<noteq> []"
    then have "\<not> is_space (hd (dropWhile is_space s))" by (rule hd_dropWhile)
    moreover from n have "hd (dropWhile is_space s) \<in> set (dropWhile is_space s)"
      by (rule hd_in_set)
    ultimately show False using a by blast
  qed
  then show "\<forall>c\<in>set s. is_space c" by (simp only: dropWhile_space_Nil)
next
  assume "\<forall>c\<in>set s. is_space c"
  then have "dropWhile is_space s = []" by (simp only: dropWhile_space_Nil)
  then show "trim s = []" unfolding trim_def by (simp only: rev.simps dropWhile.simps)
qed

lemma trim_ends:
  "trim s \<noteq> [] \<Longrightarrow> \<not> is_space (hd (trim s)) \<and> \<not> is_space (last (trim s))"
proof -
  assume n: "trim s \<noteq> []"
  define d where "d = dropWhile is_space s"
  define r where "r = dropWhile is_space (rev d)"
  have t: "trim s = rev r" by (simp add: trim_def r_def d_def)
  from n t have r: "r \<noteq> []" by simp
  then have "\<not> is_space (hd r)" unfolding r_def by (rule hd_dropWhile)
  then have l: "\<not> is_space (last (trim s))" using r t by (simp add: last_rev)
  have d: "d \<noteq> []"
  proof
    assume "d = []"
    then have "r = []" by (simp add: r_def)
    with r show False by contradiction
  qed
  then have h: "\<not> is_space (hd d)" unfolding d_def by (rule hd_dropWhile)
  have "suffix r (rev d)" unfolding r_def by (rule suffix_dropWhile)
  then have "prefix (rev r) (rev (rev d))" by (simp only: suffix_to_prefix)
  then have "prefix (trim s) d" using t by simp
  with n have "hd (trim s) = hd d" by (auto simp: prefix_def)
  with h l show ?thesis by simp
qed

lemma reply_text_empty_iff:
  "reply_text data = Inr [] \<longleftrightarrow>
     reply_field data = JUndefined \<or> reply_field data = JNull \<or>
     (\<exists>s. reply_field data = JStr s \<and> (\<forall>c\<in>set s. is_space c))"
  by (cases "reply_field data") (simp_all add: reply_text_def trim_empty_iff trim_Nil)

lemma reply_text_trimmed:
  "reply_text data = Inr s \<Longrightarrow> s \<noteq> [] \<Longrightarrow>
   (\<exists>raw. reply_field data = JStr raw \<and> s = trim raw) \<and> \<not> is_space (hd s) \<and> \<not> is_space (last s)"
  by (cases "reply_field data") (auto simp: reply_text_def trim_Nil dest: trim_ends)

text \<open>
  Claim C8, amended. The client fails with its own three errors in three cases: without a
  credential (none passed and none in the environment, an empty one counting as none) with
  the message \<open>Missing GEMINI_API_KEY (set in backend .env)\<close> and without a request; on a
  response whose \<open>ok\<close> is false, with \<open>Gemini error\<close>, the status code and the first 400
  code units of the body; on a readable reply whose text field is missing, \<open>null\<close> or all
  white space, with \<open>Empty Gemini response\<close>. The three messages differ. On a readable
  reply with other text it returns that text trimmed, which is not empty. It also fails,
  with the error it is handed, when the request itself throws.
\<close>

theorem client_failures:
  "(no_credential env apiKey \<longrightarrow>
      geminiCall env model prompt apiKey w =
        (Inl (new_Error (js ''Missing GEMINI_API_KEY (set in backend .env)'')), w)) \<and>
   (credential env apiKey = Some key \<and> key \<noteq> [] \<and> gemini_url env model key = Inr url \<and>
    fetch env (gemini_request url prompt) w = (Inr resp, w') \<longrightarrow>
      (\<not> resp_ok resp \<and> resp_body resp = Inr t \<longrightarrow>
         geminiCall env model prompt apiKey w =
           (Inl (new_Error (js ''Gemini error '' @ show_nat (resp_status resp) @ js '': '' @
                            take 400 t)), w') \<and>
         length (take 400 t) \<le> 400) \<and>
      (resp_ok resp \<and> resp_body resp = Inr b \<and> JSON_parse env b = Inr data \<longrightarrow>
         (reply_text data = Inr [] \<longrightarrow>
            geminiCall env model prompt apiKey w =
              (Inl (new_Error (js ''Empty Gemini response'')), w')) \<and>
         (\<forall>s. reply_text data = Inr s \<and> s \<noteq> [] \<longrightarrow>
            geminiCall env model prompt apiKey w = (Inr s, w') \<and>
            (\<exists>raw. reply_field data = JStr raw \<and> s = trim raw) \<and>
            \<not> is_space (hd s) \<and> \<not> is_space (last s)))) \<and>
   (reply_text data = Inr [] \<longleftrightarrow>
      reply_field data = JUndefined \<or> reply_field data = JNull \<or>
      (\<exists>s. reply_field data = JStr s \<and> (\<forall>c\<in>set s. is_space c))) \<and>
   (credential env apiKey = Some key \<and> key \<noteq> [] \<and> gemini_url env model key = Inr url \<and>
    fetch env (gemini_request url prompt) w = (Inl e, w') \<longrightarrow>
      geminiCall env model prompt apiKey w = (Inl e, w')) \<and>
   js ''Missing GEMINI_API_KEY (set in backend .env)'' \<noteq> js ''Empty Gemini response'' \<and>
   js ''Gemini error '' @ show_nat (resp_status resp) @ js '': '' @ take 400 t \<noteq>
     js ''Missing GEMINI_API_KEY (set in backend .env)'' \<and>
   js ''Gemini error '' @ show_nat (resp_status resp) @ js '': '' @ take 400 t \<noteq>
     js ''Empty Gemini response''"
proof (intro conjI impI allI)
  assume "no_credential env apiKey"
  then show "geminiCall env model prompt apiKey w =
        (Inl (new_Error (js ''Missing GEMINI_API_KEY (set in backend .env)'')), w)"
    by (rule geminiCall_no_credential)
next
  assume a: "credential env apiKey = Some key \<and> key \<noteq> [] \<and> gemini_url env model key = Inr url \<and>
    fetch env (gemini_request url prompt) w = (Inr resp, w')"
  then have a1: "credential env apiKey = Some key" and a2: "key \<noteq> []"
    and a3: "gemini_url env model key = Inr url"
    and a4: "fetch env (gemini_request url prompt) w = (Inr resp, w')"
    by blast+
  have g: "geminiCall env model prompt apiKey w =
     (if \<not> resp_ok resp
      then (case resp_body resp of
              Inl e \<Rightarrow> (Inl e, w')
            | Inr t \<Rightarrow> (Inl (new_Error (js ''Gemini error '' @ show_nat (resp_status resp) @
                                js '': '' @ take 400 t)), w'))
      else (case resp_body resp of
              Inl e \<Rightarrow> (Inl e, w')
            | Inr b \<Rightarrow>
                (case JSON_parse env b of
                   Inl e \<Rightarrow> (Inl e, w')
                 | Inr data \<Rightarrow>
                     (case reply_text data of
                        Inl e \<Rightarrow> (Inl e, w')
                      | Inr s \<Rightarrow> if s = [] then (Inl (new_Error (js ''Empty Gemini response'')), w')
                                else (Inr s, w')))))"
    using a1 a2 a3 a4 by (rule geminiCall_answered)
  {
    assume "\<not> resp_ok resp \<and> resp_body resp = Inr t"
    with g show "geminiCall env model prompt apiKey w =
           (Inl (new_Error (js ''Gemini error '' @ show_nat (resp_status resp) @ js '': '' @
                            take 400 t)), w')"
      by simp
    show "length (take 400 t) \<le> 400" by simp
  }
  {
    assume r: "resp_ok resp \<and> resp_body resp = Inr b \<and> JSON_parse env b = Inr data"
    {
      assume "reply_text data = Inr []"
      with g r show "geminiCall env model prompt apiKey w =
              (Inl (new_Error (js ''Empty Gemini response'')), w')"
        by simp
    }
    {
      fix s assume s: "reply_text data = Inr s \<and> s \<noteq> []"
      with g r show "geminiCall env model prompt apiKey w = (Inr s, w')" by simp
      from s reply_text_trimmed[of data s]
      show "\<exists>raw. reply_field data = JStr raw \<and> s = trim raw"
        and "\<not> is_space (hd s)" and "\<not> is_space (last s)"
        by simp_all
    }
  }
next
  show "reply_text data = Inr [] \<longleftrightarrow>
      reply_field data = JUndefined \<or> reply_field data = JNull \<or>
      (\<exists>s. reply_field data = JStr s \<and> (\<forall>c\<in>set s. is_space c))"
    by (rule reply_text_empty_iff)
next
  assume "credential env apiKey = Some key \<and> key \<noteq> [] \<and> gemini_url env model key = Inr url \<and>
    fetch env (gemini_request url prompt) w = (Inl e, w')"
  then have "credential env apiKey = Some key" and "key \<noteq> []"
    and "gemini_url env model key = Inr url"
    and "fetch env (gemini_request url prompt) w = (Inl e, w')"
    by blast+
  then show "geminiCall env model prompt apiKey w = (Inl e, w')"
    by (rule geminiCall_transport)
next
  show "js ''Missing GEMINI_API_KEY (set in backend .env)'' \<noteq> js ''Empty Gemini response''"
    by (simp add: js_def)
  show "js ''Gemini error '' @ show_nat (resp_status resp) @ js '': '' @ take 400 t \<noteq>
     js ''Missing GEMINI_API_KEY (set in backend .env)''"
    by (simp add: js_def)
  show "js ''Gemini error '' @ show_nat (resp_status resp) @ js '': '' @ take 400 t \<noteq>
     js ''Empty Gemini response''"
    by (simp add: js_def)
qed

theorem client_failures_witness:
  "geminiCall (demo_env\<lparr>GEMINI_API_KEY := None\<rparr>) default_model (js ''Alpha'') (Some []) 0 =
     (Inl (new_Error (js ''Missing GEMINI_API_KEY (set in backend .env)'')), 0) \<and>
   geminiCall demo_env default_model (js ''Busy'') None 0 =
     (Inl (new_Error (js ''Gemini error 503: overloaded'')), 1) \<and>
   geminiCall demo_env default_model (js ''Blank'') None 0 =
     (Inl (new_Error (js ''Empty Gemini response'')), 1) \<and>
   geminiCall demo_env default_model (js ''Delta'') None 0 = (Inr (js ''say {delta} ok''), 1) \<and>
   geminiCall demo_env default_model (js ''Down'') None 0 =
     (Inl (JsErr (js ''FetchError'') (js ''getaddrinfo ENOTFOUND'')), 1)"
proof (intro conjI)
  have "no_credential (demo_env\<lparr>GEMINI_API_KEY := None\<rparr>) (Some [])"
    by (simp add: no_credential_def truthy_str_def)
  with client_failures[where env = "demo_env\<lparr>GEMINI_API_KEY := None\<rparr>" and apiKey = "Some []"
      and model = default_model and prompt = "js ''Alpha''" and w = 0]
  show "geminiCall (demo_env\<lparr>GEMINI_API_KEY := None\<rparr>) default_model (js ''Alpha'') (Some []) 0 =
     (Inl (new_Error (js ''Missing GEMINI_API_KEY (set in backend .env)'')), 0)"
    by blast
next
  have c: "credential demo_env None = Some (js ''secret'')" by code_simp
  have k: "js ''secret'' \<noteq> []" by (simp add: js_def)
  have u: "gemini_url demo_env default_model (js ''secret'') = Inr demo_url" by code_simp
  let ?busy = "\<lparr>resp_ok = False, resp_status = 503, resp_body = Inr (js ''overloaded'')\<rparr>"
  have f: "fetch demo_env (gemini_request demo_url (js ''Busy'')) 0 = (Inr ?busy, 1)"
    by code_simp
  have m: "js ''Gemini error '' @ show_nat (resp_status ?busy) @ js '': '' @
             take 400 (js ''overloaded'') = js ''Gemini error 503: overloaded''"
    by code_simp
  note t = client_failures[where env = demo_env and apiKey = None and model = default_model
      and prompt = "js ''Busy''" and w = 0 and key = "js ''secret''" and url = demo_url
      and resp = ?busy and w' = 1 and t = "js ''overloaded''",
      THEN conjunct2, THEN conjunct1, THEN mp, THEN conjunct1, THEN mp, THEN conjunct1]
  have "geminiCall demo_env default_model (js ''Busy'') None 0 =
     (Inl (new_Error (js ''Gemini error '' @ show_nat (resp_status ?busy) @ js '': '' @
                      take 400 (js ''overloaded''))), 1)"
    using c k u f by (intro t) simp_all
  then show "geminiCall demo_env default_model (js ''Busy'') None 0 =
     (Inl (new_Error (js ''Gemini error 503: overloaded'')), 1)"
    by (simp only: m)
next
  have c: "credential demo_env None = Some (js ''secret'')" by code_simp
  have k: "js ''secret'' \<noteq> []" by (simp add: js_def)
  have u: "gemini_url demo_env default_model (js ''secret'') = Inr demo_url" by code_simp
  let ?resp = "\<lparr>resp_ok = True, resp_status = 200, resp_body = Inr (js ''reply:Blank'')\<rparr>"
  let ?data = "reply_with (JStr (js ''   ''))"
  have f: "fetch demo_env (gemini_request demo_url (js ''Blank'')) 0 = (Inr ?resp, 1)"
    by code_simp
  have p: "JSON_parse demo_env (js ''reply:Blank'') = Inr ?data" by code_simp
  have r: "reply_text ?data = Inr []" by code_simp
  note t = client_failures[where env = demo_env and apiKey = None and model = default_model
      and prompt = "js ''Blank''" and w = 0 and key = "js ''secret''" and url = demo_url
      and resp = ?resp and w' = 1 and b = "js ''reply:Blank''" and data = ?data,
      THEN conjunct2, THEN conjunct1, THEN mp, THEN conjunct2, THEN mp, THEN conjunct1, THEN mp]
  show "geminiCall demo_env default_model (js ''Blank'') None 0 =
     (Inl (new_Error (js ''Empty Gemini response'')), 1)"
    using c k u f p r by (intro t) simp_all
next
  have c: "credential demo_env None = Some (js ''secret'')" by code_simp
  have k: "js ''secret'' \<noteq> []" by (simp add: js_def)
  have u: "gemini_url demo_env default_model (js ''secret'') = Inr demo_url" by code_simp
  let ?resp = "\<lparr>resp_ok = True, resp_status = 200, resp_body = Inr (js ''reply:Delta'')\<rparr>"
  let ?data = "reply_with (JStr (js ''say {delta} ok''))"
  have f: "fetch demo_env (gemini_request demo_url (js ''Delta'')) 0 = (Inr ?resp, 1)"
    by code_simp
  have p: "JSON_parse demo_env (js ''reply:Delta'') = Inr ?data" by code_simp
  have r: "reply_text ?data = Inr (js ''say {delta} ok'')" by code_simp
  have n: "js ''say {delta} ok'' \<noteq> []" by (simp add: js_def)
  note t = client_failures[where env = demo_env and apiKey = None and model = default_model
      and prompt = "js ''Delta''" and w = 0 and key = "js ''secret''" and url = demo_url
      and resp = ?resp and w' = 1 and b = "js ''reply:Delta''" and data = ?data,
      THEN conjunct2, THEN conjunct1, THEN mp, THEN conjunct2, THEN mp, THEN conjunct2,
      THEN spec, THEN mp, THEN conjunct1]
  show "geminiCall demo_env default_model (js ''Delta'') None 0 = (Inr (js ''say {delta} ok''), 1)"
    using c k u f p r n by (intro t) simp_all
next
  have c: "credential demo_env None = Some (js ''secret'')" by code_simp
  have k: "js ''secret'' \<noteq> []" by (simp add: js_def)
  have u: "gemini_url demo_env default_model (js ''secret'') = Inr demo_url" by code_simp
  let ?e = "JsErr (js ''FetchError'') (js ''getaddrinfo ENOTFOUND'')"
  have f: "fetch demo_env (gemini_request demo_url (js ''Down'')) 0 = (Inl ?e, 1)"
    by code_simp
  note t = client_failures[where env = demo_env and apiKey = None and model = default_model
      and prompt = "js ''Down''" and w = 0 and key = "js ''secret''" and url = demo_url
      and e = ?e and w' = 1,
      THEN conjunct2, THEN conjunct2, THEN conjunct2, THEN conjunct1, THEN mp]
  show "geminiCall demo_env default_model (js ''Down'') None 0 = (Inl ?e, 1)"
    using c k u f by (intro t) simp_all
qed

text \<open>
  The claim as stated fails: with a credential at hand, a request that throws (the host
  cannot be resolved) makes the client fail although there is no response with a status
  and no reply to be empty.
\<close>

theorem client_failures_counterexample:
  "isl (fst (geminiCall demo_env default_model (js ''Down'') None 0)) \<and>
   \<not> claimed_failure demo_env default_model (js ''Down'') None 0"
proof
  have "geminiCall demo_env default_model (js ''Down'') None 0 =
     (Inl (JsErr (js ''FetchError'') (js ''getaddrinfo ENOTFOUND'')), 1)"
    by code_simp
  then show "isl (fst (geminiCall demo_env default_model (js ''Down'') None 0))" by simp
  have "\<not> no_credential demo_env None" by code_simp
  moreover have "remote_response demo_env default_model (js ''Down'') None 0 = None"
    by code_simp
  ultimately show "\<not> claimed_failure demo_env default_model (js ''Down'') None 0"
    by (simp add: claimed_failure_def)
qed

end
